theory Spec2Isabelle
  imports Main "HOL-Library.Word"
begin

unbundle bit_operations_syntax

section \<open>Basic types of the USB backend\<close>

type_synonym u8 = "8 word"
type_synonym u16 = "16 word"
type_synonym u32 = "32 word"
type_synonym ByteArray = "u8 list"

text \<open>
  The exceptions thrown in \<^verbatim>\<open>Device.cpp\<close>. \<^verbatim>\<open>posix::Exception\<close> captures
  \<^verbatim>\<open>errno\<close> when it is constructed, so the model carries the errno value next to
  the name of the failing operation.
\<close>

datatype exn =
    DeviceBusyException
  | DeviceNotFoundException
  | TimeoutException string
  | PosixException string int
  | RuntimeError string

text \<open>
  Modelled from the spec: the exception classes are declared in headers that are not
  among the sources (\<^verbatim>\<open>Exception.h\<close>, \<^verbatim>\<open>TimeoutException.h\<close>, ...). The spec's
  error taxonomy treats all of them as ordinary failures that a handler for any failure
  receives, so every one of them is caught by \<^verbatim>\<open>catch (const std::exception &)\<close>.
\<close>

fun is_std_exception :: "exn \<Rightarrow> bool" where
  "is_std_exception DeviceBusyException = True"
| "is_std_exception DeviceNotFoundException = True"
| "is_std_exception (TimeoutException m) = True"
| "is_std_exception (PosixException m e) = True"
| "is_std_exception (RuntimeError m) = True"

fun is_TimeoutException :: "exn \<Rightarrow> bool" where
  "is_TimeoutException (TimeoutException m) = True"
| "is_TimeoutException ex = False"

text \<open>The result of one system call: its return value and the value of errno after it.\<close>

record sysres =
  ret :: int
  err :: int

text \<open>Linux errno values used by the code.\<close>

definition EAGAIN :: int where "EAGAIN = 11"
definition EBUSY :: int where "EBUSY = 16"
definition ENODEV :: int where "ENODEV = 19"

text \<open>
  The macro \<^verbatim>\<open>IOCTL(...)\<close>: the call has been made, \<open>res\<close> is what it gave; \<open>what\<close> is
  the stringified argument list of the macro.
\<close>

definition IOCTL :: "string \<Rightarrow> sysres \<Rightarrow> exn + unit" where
  "IOCTL what res =
     (if ret res < 0 then
        (if err res = EBUSY then Inl DeviceBusyException
         else if err res = ENODEV then Inl DeviceNotFoundException
         else Inl (PosixException (''ioctl('' @ what @ '')'') (err res)))
      else Inr ())"

text \<open>
  Modelled from the spec: \<^verbatim>\<open>EndpointType\<close> is an \<^verbatim>\<open>enum\<close> declared in a header
  that is not among the sources. The spec names its four enumerators (Control,
  Isochronous, Bulk, Interrupt); a C++ enum object can also hold a value of its underlying
  type that names no enumerator, which is \<open>OtherEndpointType\<close> here.
\<close>

datatype EndpointType =
    Control
  | Isochronous
  | Bulk
  | Interrupt
  | OtherEndpointType int

record Endpoint =
  Address :: u8
  EpType :: EndpointType
  MaxPacketSize :: int

text \<open>
  Modelled from the spec: the constants of \<^verbatim>\<open>linux/usbdevice_fs.h\<close>, a header that is not
  among the sources. The numbers are those of the Linux user-space API.
\<close>

definition USBDEVFS_URB_TYPE_ISO :: u8 where "USBDEVFS_URB_TYPE_ISO = 0"
definition USBDEVFS_URB_TYPE_INTERRUPT :: u8 where "USBDEVFS_URB_TYPE_INTERRUPT = 1"
definition USBDEVFS_URB_TYPE_CONTROL :: u8 where "USBDEVFS_URB_TYPE_CONTROL = 2"
definition USBDEVFS_URB_TYPE_BULK :: u8 where "USBDEVFS_URB_TYPE_BULK = 3"

definition USBDEVFS_URB_BULK_CONTINUATION :: u32 where "USBDEVFS_URB_BULK_CONTINUATION = 0x04"
definition USBDEVFS_URB_ZERO_PACKET :: u32 where "USBDEVFS_URB_ZERO_PACKET = 0x40"

definition USBDEVFS_CAP_ZERO_PACKET :: u32 where "USBDEVFS_CAP_ZERO_PACKET = 0x01"
definition USBDEVFS_CAP_BULK_CONTINUATION :: u32 where "USBDEVFS_CAP_BULK_CONTINUATION = 0x02"

section \<open>Interface token\<close>

record InterfaceToken =
  tok_fd :: int
  tok_interfaceNumber :: nat

text \<open>The constructor claims the interface; \<open>res\<close> is the outcome of the claim ioctl.\<close>

definition InterfaceToken_ctor :: "int \<Rightarrow> nat \<Rightarrow> sysres \<Rightarrow> exn + InterfaceToken" where
  "InterfaceToken_ctor fd interfaceNumber res =
     (case IOCTL ''_fd, USBDEVFS_CLAIMINTERFACE, &interfaceNumber'' res of
        Inl ex \<Rightarrow> Inl ex
      | Inr _ \<Rightarrow> Inr \<lparr>tok_fd = fd, tok_interfaceNumber = interfaceNumber\<rparr>)"

text \<open>
  The destructor calls \<^verbatim>\<open>ioctl\<close> directly, not through the macro, and never looks at
  what the call returned.
\<close>

definition InterfaceToken_dtor :: "InterfaceToken \<Rightarrow> sysres \<Rightarrow> exn + unit" where
  "InterfaceToken_dtor tok res = Inr ()"

section \<open>Requests and the device session\<close>

text \<open>
  A \<^verbatim>\<open>UrbPtr\<close> is a shared pointer, compared by the identity of the object it
  points to. The key of the pending table is a \<^verbatim>\<open>void *\<close>: the address of the
  \<^verbatim>\<open>KernelUrb\<close> member of some request object, or any other address.
\<close>

type_synonym UrbPtr = nat

datatype kptr =
    KernelUrbOf UrbPtr
  | OtherAddress nat

record usbdevfs_urb =
  urb_type :: u8
  endpoint :: u8
  flags :: u32
  buffer_length :: int
  actual_length :: int

record Urb =
  this :: UrbPtr
  Fd :: int
  PacketSize :: int
  Buffer :: ByteArray
  KernelUrb :: usbdevfs_urb

text \<open>What the code writes to its log and to stderr.\<close>

datatype log_entry =
    ErrClearHalt u8 exn
  | ErrMsSinceLastPoll int
  | ErrGotUnknownUrb kptr
  | ErrWhileSubmittingUrb exn
  | PerrorDiscardUrb int
  | DebugReadControl u8 u8 u16 u16

text \<open>The request ioctls issued to the kernel, in order, with what they carried.\<close>

datatype urb_call =
    SUBMITURB kptr usbdevfs_urb ByteArray
  | DISCARDURB kptr

text \<open>
  The session: the descriptor, the capability bits and the pending table of
  \<^verbatim>\<open>Device\<close>, together with what the code has written and which request ioctls it
  has issued so far. The last two are not members of the class; they record the effects
  of the code on its surroundings.
\<close>

record Device =
  dev_fd :: int
  capabilities :: u32
  urbs :: "kptr \<rightharpoonup> UrbPtr"
  log_out :: "log_entry list"
  urb_calls :: "urb_call list"

definition error_log :: "log_entry \<Rightarrow> Device \<Rightarrow> Device" where
  "error_log e d = d\<lparr>log_out := log_out d @ [e]\<rparr>"

subsection \<open>Construction of a request\<close>

definition MaxBufferSize :: int where "MaxBufferSize = 4096"

text \<open>C++ integer division truncates towards zero; the divisor is not zero.\<close>

definition c_div :: "int \<Rightarrow> int \<Rightarrow> int" where
  "c_div a b = (if (a < 0) = (b < 0) then \<bar>a\<bar> div \<bar>b\<bar> else - (\<bar>a\<bar> div \<bar>b\<bar>))"

text \<open>
  The size given to \<^verbatim>\<open>Buffer\<close> in the constructor's initialiser list. Division by a
  packet size of zero is undefined behaviour: \<open>None\<close>.
\<close>

definition Urb_BufferSize :: "int \<Rightarrow> int option" where
  "Urb_BufferSize packetSize =
     (if packetSize = 0 then None
      else Some (max packetSize (c_div MaxBufferSize packetSize * packetSize)))"

text \<open>\<open>p\<close> is the identity of the object that \<^verbatim>\<open>make_shared\<close> allocates.\<close>

definition Urb_ctor :: "UrbPtr \<Rightarrow> int \<Rightarrow> u8 \<Rightarrow> Endpoint \<Rightarrow> Urb option" where
  "Urb_ctor p fd type ep =
     (case Urb_BufferSize (MaxPacketSize ep) of
        None \<Rightarrow> None
      | Some n \<Rightarrow>
          Some \<lparr>this = p, Fd = fd, PacketSize = MaxPacketSize ep,
                Buffer = replicate (nat n) 0,
                KernelUrb = \<lparr>urb_type = type, endpoint = Address ep, flags = 0,
                             buffer_length = n, actual_length = 0\<rparr>\<rparr>)"

definition GetTransferSize :: "Urb \<Rightarrow> nat" where
  "GetTransferSize u = length (Buffer u)"

subsection \<open>Clearing a halted endpoint\<close>

definition ClearHalt :: "Device \<Rightarrow> Endpoint \<Rightarrow> sysres \<Rightarrow> Device \<times> (exn + unit)" where
  "ClearHalt d ep res =
     (case IOCTL ''_fd.Get(), USBDEVFS_CLEAR_HALT, &index'' res of
        Inr _ \<Rightarrow> (d, Inr ())
      | Inl ex \<Rightarrow>
          if is_std_exception ex then (error_log (ErrClearHalt (Address ep) ex) d, Inr ())
          else (d, Inl ex))"

subsection \<open>Transaction type\<close>

definition TransactionType :: "Endpoint \<Rightarrow> exn + u8" where
  "TransactionType ep =
     (case EpType ep of
        Control \<Rightarrow> Inr USBDEVFS_URB_TYPE_CONTROL
      | Isochronous \<Rightarrow> Inr USBDEVFS_URB_TYPE_ISO
      | Bulk \<Rightarrow> Inr USBDEVFS_URB_TYPE_BULK
      | Interrupt \<Rightarrow> Inr USBDEVFS_URB_TYPE_INTERRUPT
      | OtherEndpointType v \<Rightarrow> Inl (RuntimeError ''invalid endpoint type''))"

subsection \<open>Control transfers\<close>

record usbdevfs_ctrltransfer =
  bRequestType :: u8
  bRequest :: u8
  wValue :: u16
  wIndex :: u16
  wLength :: u16
  ctrl_timeout :: u32

text \<open>
  \<^verbatim>\<open>std::vector::resize\<close>: a shorter size cuts the tail off, a longer one appends
  zero bytes.
\<close>

definition resize :: "nat \<Rightarrow> ByteArray \<Rightarrow> ByteArray" where
  "resize n xs = take n xs @ replicate (n - length xs) 0"

text \<open>
  The kernel writes the bytes it received through the descriptor's \<^verbatim>\<open>data\<close> pointer,
  into the caller's vector: the vector keeps its size, a prefix of it is overwritten.
\<close>

definition store_bytes :: "ByteArray \<Rightarrow> ByteArray \<Rightarrow> ByteArray" where
  "store_bytes received buf = take (length buf) (received @ drop (length received) buf)"

text \<open>
  The \<^verbatim>\<open>USBDEVFS_CONTROL\<close> ioctl is the environment: \<open>io\<close> maps the descriptor to the
  call's result and the bytes the device sent.
\<close>

type_synonym control_ioctl = "usbdevfs_ctrltransfer \<Rightarrow> sysres \<times> ByteArray"

definition control_descriptor :: "u8 \<Rightarrow> u8 \<Rightarrow> u16 \<Rightarrow> u16 \<Rightarrow> ByteArray \<Rightarrow> int \<Rightarrow> usbdevfs_ctrltransfer" where
  "control_descriptor type req val index data timeout =
     \<lparr>bRequestType = type, bRequest = req, wValue = val, wIndex = index,
      wLength = of_nat (length data), ctrl_timeout = of_int timeout\<rparr>"

definition ReadControl ::
  "Device \<Rightarrow> control_ioctl \<Rightarrow> u8 \<Rightarrow> u8 \<Rightarrow> u16 \<Rightarrow> u16 \<Rightarrow> ByteArray \<Rightarrow> int
     \<Rightarrow> Device \<times> ByteArray \<times> (exn + unit)" where
  "ReadControl d io type req val index data timeout =
     (let d1 = error_log (DebugReadControl type req val index) d;
          (res, received) = io (control_descriptor type req val index data timeout);
          data1 = store_bytes received data
      in if ret res \<ge> 0 then (d1, resize (nat (ret res)) data1, Inr ())
         else if err res = EAGAIN
           then (d1, data1, Inl (TimeoutException ''timeout sending control transfer''))
         else (d1, data1, Inl (PosixException ''ioctl'' (err res))))"

subsection \<open>Methods of a request\<close>

definition Urb_Submit :: "Urb \<Rightarrow> sysres \<Rightarrow> exn + unit" where
  "Urb_Submit u res = IOCTL ''Fd, USBDEVFS_SUBMITURB, &KernelUrb'' res"

text \<open>
  \<^verbatim>\<open>Urb::Discard\<close> issues the cancel ioctl and reports a failure with \<^verbatim>\<open>perror\<close>; it
  throws nothing. The call and the message are recorded in the session.
\<close>

definition Urb_Discard :: "Device \<Rightarrow> Urb \<Rightarrow> sysres \<Rightarrow> Device" where
  "Urb_Discard d u res =
     (let d1 = d\<lparr>urb_calls := urb_calls d @ [DISCARDURB (KernelUrbOf (this u))]\<rparr>
      in if ret res \<noteq> 0 then error_log (PerrorDiscardUrb (err res)) d1 else d1)"

text \<open>
  Modelled from the spec: the stream interfaces are declared in headers that are not among
  the sources. An input stream is the list of bytes it still holds, and reading pulls up
  to \<open>sz\<close> bytes from it; an output stream is the list of bytes written so far, and
  writing appends all of the bytes and returns their number.
\<close>

definition Urb_Send :: "Urb \<Rightarrow> ByteArray \<Rightarrow> nat \<Rightarrow> Urb \<times> ByteArray \<times> nat" where
  "Urb_Send u inputStream sz =
     (let chunk = take sz inputStream; r = length chunk
      in (u\<lparr>Buffer := store_bytes chunk (Buffer u),
            KernelUrb := (KernelUrb u)\<lparr>buffer_length := int r\<rparr>\<rparr>,
          drop sz inputStream, r))"

text \<open>
  \<^verbatim>\<open>Recv\<close> writes the first \<^verbatim>\<open>actual_length\<close> bytes of the buffer to the output
  stream. The kernel reports no more than \<^verbatim>\<open>buffer_length\<close> bytes (see
  \<open>kernel_complete\<close> below), so the read stays inside the buffer.
\<close>

definition Urb_Recv :: "Urb \<Rightarrow> ByteArray \<Rightarrow> ByteArray \<times> nat" where
  "Urb_Recv u outputStream =
     (let n = nat (actual_length (KernelUrb u))
      in (outputStream @ take n (Buffer u), n))"

definition SetFlag :: "u32 \<Rightarrow> bool \<Rightarrow> Urb \<Rightarrow> Urb" where
  "SetFlag flag v u =
     (if v then u\<lparr>KernelUrb := (KernelUrb u)\<lparr>flags := flags (KernelUrb u) OR flag\<rparr>\<rparr>
      else u\<lparr>KernelUrb := (KernelUrb u)\<lparr>flags := flags (KernelUrb u) AND NOT flag\<rparr>\<rparr>)"

definition SetContinuationFlag :: "bool \<Rightarrow> Urb \<Rightarrow> Urb" where
  "SetContinuationFlag continuation u = SetFlag USBDEVFS_URB_BULK_CONTINUATION continuation u"

definition SetZeroPacketFlag :: "bool \<Rightarrow> Urb \<Rightarrow> Urb" where
  "SetZeroPacketFlag zero u = SetFlag USBDEVFS_URB_ZERO_PACKET zero u"

subsection \<open>The kernel as environment\<close>

record timeval =
  tv_sec :: int
  tv_usec :: int

text \<open>
  What the host gives during one call of \<^verbatim>\<open>Device::Reap\<close>: the two readings of the
  clock, the result of \<^verbatim>\<open>poll\<close>, the result of the non-blocking reap ioctl, and, when
  that ioctl succeeds, the request it hands back together with the bytes the device
  transferred into that request's buffer.
\<close>

record reap_event =
  ev_started_res :: sysres
  ev_started :: timeval
  ev_poll :: sysres
  ev_now_res :: sysres
  ev_now :: timeval
  ev_reap :: sysres
  ev_urb :: kptr
  ev_data :: ByteArray

text \<open>
  What the host gives during one call of \<^verbatim>\<open>Device::Submit\<close>: the result of the submit
  ioctl, the events of the successive \<^verbatim>\<open>Reap\<close> calls, and the result of the cancel
  ioctl should the call come to it. A call that uses up all the events listed has not
  returned as far as the list tells: its result is \<open>None\<close>.
\<close>

record submit_env =
  env_submit :: sysres
  env_reaps :: "reap_event list"
  env_discard :: sysres

text \<open>
  On completion the kernel stores the transferred length in the request and, for a read,
  the transferred bytes in its buffer, never more than \<^verbatim>\<open>buffer_length\<close> of them.
\<close>

definition kernel_complete :: "ByteArray \<Rightarrow> Urb \<Rightarrow> Urb" where
  "kernel_complete data u =
     (let got = take (nat (buffer_length (KernelUrb u))) data
      in u\<lparr>Buffer := store_bytes got (Buffer u),
           KernelUrb := (KernelUrb u)\<lparr>actual_length := int (length got)\<rparr>\<rparr>)"

subsection \<open>Reaping and submitting\<close>

text \<open>
  The elapsed time that \<^verbatim>\<open>Reap\<close> logs after a \<^verbatim>\<open>poll\<close> that timed out. The
  fields of a \<^verbatim>\<open>timeval\<close> are wider than \<^verbatim>\<open>int\<close>; the sum is stored in
  \<^verbatim>\<open>int ms\<close>, which keeps its low 32 bits, read as a signed number.
\<close>

definition elapsed_ms :: "timeval \<Rightarrow> timeval \<Rightarrow> int" where
  "elapsed_ms started now =
     sint (word_of_int
       ((tv_sec now - tv_sec started) * 1000 + c_div (tv_usec now - tv_usec started) 1000) :: 32 word)"

definition Reap :: "Device \<Rightarrow> int \<Rightarrow> reap_event \<Rightarrow> Device \<times> (exn + kptr)" where
  "Reap d timeout ev =
     (if ret (ev_started_res ev) = - 1
        then (d, Inl (PosixException ''gettimeofday'' (err (ev_started_res ev))))
      else if ret (ev_now_res ev) = - 1
        then (d, Inl (PosixException ''gettimeofday'' (err (ev_now_res ev))))
      else if ret (ev_poll ev) < 0
        then (d, Inl (PosixException ''poll'' (err (ev_poll ev))))
      else
        let d1 = (if ret (ev_poll ev) = 0 \<and> timeout > 0
                  then error_log (ErrMsSinceLastPoll (elapsed_ms (ev_started ev) (ev_now ev))) d
                  else d)
        in if ret (ev_reap ev) = 0 then (d1, Inr (ev_urb ev))
           else if err (ev_reap ev) = EAGAIN
             then (d1, Inl (TimeoutException ''timeout reaping usb urb''))
           else (d1, Inl (PosixException ''ioctl'' (err (ev_reap ev)))))"

text \<open>\<^verbatim>\<open>std::map::insert\<close> leaves an entry that is already there untouched.\<close>

definition map_insert :: "('k \<rightharpoonup> 'v) \<Rightarrow> 'k \<Rightarrow> 'v \<Rightarrow> ('k \<rightharpoonup> 'v)" where
  "map_insert m k v = (case m k of None \<Rightarrow> m(k \<mapsto> v) | Some old \<Rightarrow> m)"

text \<open>
  The \<^verbatim>\<open>while (true)\<close> loop of \<^verbatim>\<open>Device::Submit\<close>, one event per iteration. It ends
  with the exception \<^verbatim>\<open>Reap\<close> threw, or with the data of the completion that was found
  to be the caller's request.

  This is one call running on its own: from one iteration to the next the pending table
  is as this call left it. The source holds the mutex for the insertion and for the
  lookup and removal of each iteration only, not across \<^verbatim>\<open>Reap\<close>, so with several
  calls in flight on one session another call's loop can remove entries in between,
  this call's entry among them. What is stated below about the table after a call is
  limited to what does not depend on that.
\<close>

fun reap_loop ::
  "Device \<Rightarrow> UrbPtr \<Rightarrow> int \<Rightarrow> reap_event list \<Rightarrow> (Device \<times> (exn + ByteArray)) option" where
  "reap_loop d urb timeout [] = None"
| "reap_loop d urb timeout (ev # evs) =
     (case Reap d timeout ev of
        (d1, Inl ex) \<Rightarrow> Some (d1, Inl ex)
      | (d1, Inr completedKernelUrb) \<Rightarrow>
          (case urbs d1 completedKernelUrb of
             None \<Rightarrow> reap_loop (error_log (ErrGotUnknownUrb completedKernelUrb) d1) urb timeout evs
           | Some completedUrb \<Rightarrow>
               let d2 = d1\<lparr>urbs := (urbs d1)(completedKernelUrb := None)\<rparr>
               in if completedUrb = urb then Some (d2, Inr (ev_data ev))
                  else reap_loop d2 urb timeout evs))"

definition Submit ::
  "Device \<Rightarrow> Urb \<Rightarrow> int \<Rightarrow> submit_env \<Rightarrow> (Device \<times> Urb \<times> (exn + unit)) option" where
  "Submit d urb timeout env =
     (let d0 = d\<lparr>urb_calls := urb_calls d @
                  [SUBMITURB (KernelUrbOf (this urb)) (KernelUrb urb)
                     (take (nat (buffer_length (KernelUrb urb))) (Buffer urb))]\<rparr>
      in case Urb_Submit urb (env_submit env) of
           Inl ex \<Rightarrow> Some (d0, urb, Inl ex)
         | Inr _ \<Rightarrow>
             let d1 = d0\<lparr>urbs := map_insert (urbs d0) (KernelUrbOf (this urb)) (this urb)\<rparr>
             in (case reap_loop d1 (this urb) timeout (env_reaps env) of
                   None \<Rightarrow> None
                 | Some (d2, Inr data) \<Rightarrow> Some (d2, kernel_complete data urb, Inr ())
                 | Some (d2, Inl ex) \<Rightarrow>
                     if is_TimeoutException ex
                       then Some (Urb_Discard d2 urb (env_discard env), urb, Inl ex)
                     else if is_std_exception ex
                       then Some (Urb_Discard (error_log (ErrWhileSubmittingUrb ex) d2) urb
                                    (env_discard env), urb, Inl ex)
                     else Some (d2, urb, Inl ex)))"

subsection \<open>Bulk transfers\<close>

text \<open>
  The \<^verbatim>\<open>do ... while\<close> loops of \<^verbatim>\<open>WriteBulk\<close> and \<^verbatim>\<open>ReadBulk\<close>: one element of the
  list for each call of \<^verbatim>\<open>Submit\<close>. The result is \<open>None\<close> when the list ends before
  the loop does.
\<close>

fun WriteBulk_loop ::
  "Device \<Rightarrow> Urb \<Rightarrow> nat \<Rightarrow> bool \<Rightarrow> ByteArray \<Rightarrow> int \<Rightarrow> submit_env list
     \<Rightarrow> (Device \<times> ByteArray \<times> (exn + unit)) option" where
  "WriteBulk_loop d urb transferSize continuation inputStream timeout [] = None"
| "WriteBulk_loop d urb transferSize continuation inputStream timeout (env # envs) =
     (let (urb1, inputStream1, r) = Urb_Send urb inputStream transferSize;
          urb2 = (if capabilities d AND USBDEVFS_CAP_ZERO_PACKET \<noteq> 0
                  then SetZeroPacketFlag (r \<noteq> transferSize) urb1 else urb1);
          urb3 = (if capabilities d AND USBDEVFS_CAP_BULK_CONTINUATION \<noteq> 0
                  then SetContinuationFlag continuation urb2 else urb2);
          continuation1 = (if capabilities d AND USBDEVFS_CAP_BULK_CONTINUATION \<noteq> 0
                           then True else continuation)
      in case Submit d urb3 timeout env of
           None \<Rightarrow> None
         | Some (d1, urb4, Inl ex) \<Rightarrow> Some (d1, inputStream1, Inl ex)
         | Some (d1, urb4, Inr u) \<Rightarrow>
             if r = transferSize
               then WriteBulk_loop d1 urb4 transferSize continuation1 inputStream1 timeout envs
             else Some (d1, inputStream1, Inr ()))"

text \<open>
  \<open>p\<close> is the identity of the request object the call allocates. A packet size of zero
  makes the construction of the request undefined: \<open>None\<close>.
\<close>

definition WriteBulk ::
  "Device \<Rightarrow> UrbPtr \<Rightarrow> Endpoint \<Rightarrow> ByteArray \<Rightarrow> int \<Rightarrow> submit_env list
     \<Rightarrow> (Device \<times> ByteArray \<times> (exn + unit)) option" where
  "WriteBulk d p ep inputStream timeout envs =
     (case Urb_ctor p (dev_fd d) USBDEVFS_URB_TYPE_BULK ep of
        None \<Rightarrow> None
      | Some urb \<Rightarrow> WriteBulk_loop d urb (GetTransferSize urb) False inputStream timeout envs)"

fun ReadBulk_loop ::
  "Device \<Rightarrow> Urb \<Rightarrow> nat \<Rightarrow> bool \<Rightarrow> ByteArray \<Rightarrow> int \<Rightarrow> submit_env list
     \<Rightarrow> (Device \<times> ByteArray \<times> (exn + unit)) option" where
  "ReadBulk_loop d urb transferSize continuation outputStream timeout [] = None"
| "ReadBulk_loop d urb transferSize continuation outputStream timeout (env # envs) =
     (let urb1 = (if capabilities d AND USBDEVFS_CAP_BULK_CONTINUATION \<noteq> 0
                  then SetContinuationFlag continuation urb else urb);
          continuation1 = (if capabilities d AND USBDEVFS_CAP_BULK_CONTINUATION \<noteq> 0
                           then True else continuation)
      in case Submit d urb1 timeout env of
           None \<Rightarrow> None
         | Some (d1, urb2, Inl ex) \<Rightarrow> Some (d1, outputStream, Inl ex)
         | Some (d1, urb2, Inr u) \<Rightarrow>
             (let (outputStream1, r) = Urb_Recv urb2 outputStream
              in if r = transferSize
                   then ReadBulk_loop d1 urb2 transferSize continuation1 outputStream1 timeout envs
                 else Some (d1, outputStream1, Inr ())))"

definition ReadBulk ::
  "Device \<Rightarrow> UrbPtr \<Rightarrow> Endpoint \<Rightarrow> ByteArray \<Rightarrow> int \<Rightarrow> submit_env list
     \<Rightarrow> (Device \<times> ByteArray \<times> (exn + unit)) option" where
  "ReadBulk d p ep outputStream timeout envs =
     (case Urb_ctor p (dev_fd d) USBDEVFS_URB_TYPE_BULK ep of
        None \<Rightarrow> None
      | Some urb \<Rightarrow> ReadBulk_loop d urb (GetTransferSize urb) False outputStream timeout envs)"

subsection \<open>Vocabulary for the environment\<close>

text \<open>
  The pending table is well formed when every key is the kernel identity of the request
  stored under it. \<^verbatim>\<open>Submit\<close> is the only code that inserts, and it inserts such pairs.
\<close>

definition table_ok :: "(kptr \<rightharpoonup> UrbPtr) \<Rightarrow> bool" where
  "table_ok m = (\<forall>k u. m k = Some u \<longrightarrow> k = KernelUrbOf u)"

text \<open>An event in which \<^verbatim>\<open>Reap\<close> hands back a completed request.\<close>

definition reap_succeeds :: "reap_event \<Rightarrow> bool" where
  "reap_succeeds ev =
     (ret (ev_started_res ev) \<noteq> - 1 \<and> ret (ev_now_res ev) \<noteq> - 1 \<and> 0 \<le> ret (ev_poll ev) \<and>
      ret (ev_reap ev) = 0)"

text \<open>An event in which the wait ends and the reap ioctl reports that nothing is ready.\<close>

definition nothing_ready :: "reap_event \<Rightarrow> bool" where
  "nothing_ready ev =
     (ret (ev_started_res ev) \<noteq> - 1 \<and> ret (ev_now_res ev) \<noteq> - 1 \<and> 0 \<le> ret (ev_poll ev) \<and>
      ret (ev_reap ev) \<noteq> 0 \<and> err (ev_reap ev) = EAGAIN)"

text \<open>
  The events bring the completion of request \<open>u\<close>, after completions of other requests
  only: the result is the data of that completion.
\<close>

fun own_completion :: "UrbPtr \<Rightarrow> reap_event list \<Rightarrow> ByteArray option" where
  "own_completion u [] = None"
| "own_completion u (ev # evs) =
     (if reap_succeeds ev
      then (if ev_urb ev = KernelUrbOf u then Some (ev_data ev) else own_completion u evs)
      else None)"

text \<open>
  The events bring completions of other requests only, and then a wait that ends with
  nothing ready: the completion of \<open>u\<close> is not observed in time.
\<close>

fun times_out :: "UrbPtr \<Rightarrow> reap_event list \<Rightarrow> bool" where
  "times_out u [] = False"
| "times_out u (ev # evs) =
     (if reap_succeeds ev then ev_urb ev \<noteq> KernelUrbOf u \<and> times_out u evs
      else nothing_ready ev)"

text \<open>
  During a call of \<^verbatim>\<open>Submit\<close> for request \<open>u\<close>, the kernel accepts the request and
  delivers its completion: the result is the data of the completion.
\<close>

definition delivers :: "UrbPtr \<Rightarrow> submit_env \<Rightarrow> ByteArray option" where
  "delivers u env =
     (if 0 \<le> ret (env_submit env) then own_completion u (env_reaps env) else None)"

text \<open>The submissions among the request ioctls: the request as submitted and its data.\<close>

fun submissions :: "urb_call list \<Rightarrow> (usbdevfs_urb \<times> ByteArray) list" where
  "submissions [] = []"
| "submissions (SUBMITURB k u data # cs) = (u, data) # submissions cs"
| "submissions (DISCARDURB k # cs) = submissions cs"

fun discards :: "urb_call list \<Rightarrow> kptr list" where
  "discards [] = []"
| "discards (SUBMITURB k u data # cs) = discards cs"
| "discards (DISCARDURB k # cs) = k # discards cs"

text \<open>Concrete events, for running the model.\<close>

definition sys_ok :: sysres where
  "sys_ok = \<lparr>ret = 0, err = 0\<rparr>"

definition ev_completed :: "kptr \<Rightarrow> ByteArray \<Rightarrow> reap_event" where
  "ev_completed k data =
     \<lparr>ev_started_res = sys_ok, ev_started = \<lparr>tv_sec = 10, tv_usec = 0\<rparr>,
      ev_poll = \<lparr>ret = 1, err = 0\<rparr>,
      ev_now_res = sys_ok, ev_now = \<lparr>tv_sec = 10, tv_usec = 2000\<rparr>,
      ev_reap = sys_ok, ev_urb = k, ev_data = data\<rparr>"

definition ev_timed_out :: reap_event where
  "ev_timed_out =
     \<lparr>ev_started_res = sys_ok, ev_started = \<lparr>tv_sec = 10, tv_usec = 0\<rparr>,
      ev_poll = \<lparr>ret = 0, err = 0\<rparr>,
      ev_now_res = sys_ok, ev_now = \<lparr>tv_sec = 11, tv_usec = 0\<rparr>,
      ev_reap = \<lparr>ret = - 1, err = EAGAIN\<rparr>, ev_urb = OtherAddress 0, ev_data = []\<rparr>"

definition dev0 :: Device where
  "dev0 = \<lparr>dev_fd = 3, capabilities = 0, urbs = Map.empty, log_out = [], urb_calls = []\<rparr>"

text \<open>A request with a buffer of four bytes, for running \<^verbatim>\<open>Submit\<close>.\<close>

definition urb7 :: Urb where
  "urb7 = \<lparr>this = 7, Fd = 3, PacketSize = 4, Buffer = [0, 0, 0, 0],
            KernelUrb = \<lparr>urb_type = USBDEVFS_URB_TYPE_BULK, endpoint = 129, flags = 0,
                         buffer_length = 4, actual_length = 0\<rparr>\<rparr>"

text \<open>Whether a submitted request carries the zero-packet flag.\<close>

definition zero_packet_set :: "usbdevfs_urb \<Rightarrow> bool" where
  "zero_packet_set ku = (flags ku AND USBDEVFS_URB_ZERO_PACKET \<noteq> 0)"

text \<open>A bulk endpoint with packets of 512 bytes: its transfer size is 4096.\<close>

definition ep512 :: Endpoint where
  "ep512 = \<lparr>Address = 1, EpType = Bulk, MaxPacketSize = 512\<rparr>"

text \<open>The kernel accepts the request \<open>p\<close> and completes it at once, with the data given.\<close>

definition env_completes :: "UrbPtr \<Rightarrow> ByteArray \<Rightarrow> submit_env" where
  "env_completes p data =
     \<lparr>env_submit = sys_ok, env_reaps = [ev_completed (KernelUrbOf p) data], env_discard = sys_ok\<rparr>"

text \<open>A bulk endpoint for reading, with packets of 512 bytes.\<close>

definition ep512_in :: Endpoint where
  "ep512_in = \<lparr>Address = 129, EpType = Bulk, MaxPacketSize = 512\<rparr>"

declare WriteBulk_loop.simps(2) [simp del] ReadBulk_loop.simps(2) [simp del]

section \<open>Properties\<close>

subsection \<open>Buffers\<close>

lemma length_store_bytes: "length (store_bytes received buf) = length buf"
  by (simp add: store_bytes_def)

lemma length_resize: "length (resize n xs) = n"
  by (simp add: resize_def)

subsection \<open>Size of the transfer buffer\<close>

lemma c_div_pos: "0 \<le> a \<Longrightarrow> 0 < b \<Longrightarrow> c_div a b = a div b"
  by (simp add: c_div_def)

lemma Urb_BufferSize_small:
  assumes "0 < P" "P \<le> MaxBufferSize"
  shows "Urb_BufferSize P = Some (MaxBufferSize div P * P)"
proof -
  have "1 \<le> MaxBufferSize div P"
  proof -
    have "0 < MaxBufferSize div P" using assms by (simp add: pos_imp_zdiv_pos_iff)
    then show ?thesis by simp
  qed
  then have "P * 1 \<le> P * (MaxBufferSize div P)"
    using assms(1) by (intro mult_left_mono) simp_all
  then have "P \<le> MaxBufferSize div P * P"
    by (simp add: mult.commute)
  moreover have "c_div MaxBufferSize P = MaxBufferSize div P"
    using assms by (simp add: c_div_pos MaxBufferSize_def)
  ultimately show ?thesis
    using assms by (simp add: Urb_BufferSize_def max_def)
qed

lemma Urb_BufferSize_large:
  assumes "MaxBufferSize < P"
  shows "Urb_BufferSize P = Some P"
proof -
  have "0 < P" using assms by (simp add: MaxBufferSize_def)
  moreover have "MaxBufferSize div P = 0"
    using assms by (simp add: MaxBufferSize_def)
  ultimately show ?thesis
    by (simp add: Urb_BufferSize_def c_div_pos MaxBufferSize_def)
qed

lemma largest_multiple:
  assumes "0 < (P::int)" "P dvd m" "m \<le> C"
  shows "m \<le> C div P * P"
proof -
  from assms(2) obtain q where m: "m = P * q" ..
  have "q = m div P" using assms(1) m by simp
  also have "\<dots> \<le> C div P" using assms by (simp add: zdiv_mono1)
  finally have "q * P \<le> C div P * P" using assms(1) by (simp add: mult_right_mono)
  then show ?thesis by (simp add: m mult.commute)
qed

text \<open>
  Claim C3, as amended. For an endpoint whose maximum packet size \<open>P\<close> is positive, the
  constructor succeeds. When \<open>P\<close> is at most \<open>MaxBufferSize\<close> (4096), the transfer size
  is a multiple of \<open>P\<close>, does not exceed \<open>MaxBufferSize\<close>, is not smaller than \<open>P\<close>, and
  every multiple of \<open>P\<close> that does not exceed \<open>MaxBufferSize\<close> is at most the transfer
  size. When \<open>P\<close> is larger than \<open>MaxBufferSize\<close>, the transfer size is \<open>P\<close> itself: the
  \<^verbatim>\<open>std::max\<close> keeps one whole packet, above the ceiling.
\<close>

theorem Urb_transfer_size:
  assumes "0 < P" and "MaxPacketSize ep = P"
  shows "\<exists>u. Urb_ctor p fd ty ep = Some u \<and>
           (P \<le> MaxBufferSize \<longrightarrow>
              P dvd int (GetTransferSize u) \<and> int (GetTransferSize u) \<le> MaxBufferSize \<and>
              P \<le> int (GetTransferSize u) \<and>
              (\<forall>m. P dvd m \<and> m \<le> MaxBufferSize \<longrightarrow> m \<le> int (GetTransferSize u))) \<and>
           (MaxBufferSize < P \<longrightarrow> int (GetTransferSize u) = P)"
proof (cases "P \<le> MaxBufferSize")
  case True
  let ?s = "MaxBufferSize div P * P"
  have sz: "Urb_BufferSize P = Some ?s" using assms(1) True by (rule Urb_BufferSize_small)
  have nonneg: "0 \<le> ?s" using assms(1) by (simp add: MaxBufferSize_def pos_imp_zdiv_nonneg_iff)
  have le: "?s \<le> MaxBufferSize"
  proof -
    have "MaxBufferSize = ?s + MaxBufferSize mod P" by simp
    moreover have "0 \<le> MaxBufferSize mod P" using assms(1) by simp
    ultimately show ?thesis by linarith
  qed
  have ge: "P \<le> ?s" using sz assms(1) by (auto simp: Urb_BufferSize_def max_def split: if_splits)
  have dv: "P dvd ?s" by simp
  have mx: "\<forall>m. P dvd m \<and> m \<le> MaxBufferSize \<longrightarrow> m \<le> ?s"
    using assms(1) by (blast intro: largest_multiple)
  have "Urb_ctor p fd ty ep \<noteq> None" using sz assms by (simp add: Urb_ctor_def)
  then obtain u where u: "Urb_ctor p fd ty ep = Some u" by blast
  then have "int (GetTransferSize u) = ?s"
    using sz assms nonneg by (auto simp: Urb_ctor_def GetTransferSize_def)
  then show ?thesis using u True le ge dv mx by simp
next
  case False
  then have "MaxBufferSize < P" by simp
  then have sz: "Urb_BufferSize P = Some P" by (rule Urb_BufferSize_large)
  show ?thesis using sz assms False
    by (simp add: Urb_ctor_def GetTransferSize_def)
qed

theorem Urb_transfer_size_witness:
  "(0::int) < 512 \<and> 512 \<le> MaxBufferSize \<and>
   (\<exists>u. Urb_ctor 7 3 USBDEVFS_URB_TYPE_BULK \<lparr>Address = 129, EpType = Bulk, MaxPacketSize = 512\<rparr> = Some u \<and>
        512 dvd int (GetTransferSize u) \<and> int (GetTransferSize u) \<le> MaxBufferSize \<and>
        512 \<le> int (GetTransferSize u)) \<and>
   MaxBufferSize < 5000 \<and>
   (\<exists>u. Urb_ctor 7 3 USBDEVFS_URB_TYPE_BULK \<lparr>Address = 129, EpType = Bulk, MaxPacketSize = 5000\<rparr> = Some u \<and>
        int (GetTransferSize u) = 5000)"
  using Urb_transfer_size [where P = 512 and p = 7 and fd = 3 and ty = USBDEVFS_URB_TYPE_BULK
          and ep = "\<lparr>Address = 129, EpType = Bulk, MaxPacketSize = 512\<rparr>"]
        Urb_transfer_size [where P = 5000 and p = 7 and fd = 3 and ty = USBDEVFS_URB_TYPE_BULK
          and ep = "\<lparr>Address = 129, EpType = Bulk, MaxPacketSize = 5000\<rparr>"]
  by (auto simp: MaxBufferSize_def)

text \<open>
  Claim C3 as stated fails for a packet size above the ceiling: with \<open>P = 5000\<close> the
  transfer size is 5000, which exceeds \<open>MaxBufferSize\<close>.
\<close>

theorem Urb_transfer_size_exceeds_ceiling:
  "map_option GetTransferSize
     (Urb_ctor 7 3 USBDEVFS_URB_TYPE_BULK \<lparr>Address = 129, EpType = Bulk, MaxPacketSize = 5000\<rparr>)
     = Some 5000 \<and> \<not> (5000 \<le> MaxBufferSize)"
  by (simp add: Urb_ctor_def Urb_BufferSize_def c_div_def MaxBufferSize_def GetTransferSize_def)

subsection \<open>Transaction type\<close>

text \<open>
  Claim C9. \<open>TransactionType\<close> returns the transport's type tag for each of the four endpoint
  types Control, Isochronous, Bulk and Interrupt, and for every other value it throws
  \<^verbatim>\<open>std::runtime_error("invalid endpoint type")\<close>.
\<close>

theorem TransactionType_total:
  "TransactionType (ep\<lparr>EpType := Control\<rparr>) = Inr USBDEVFS_URB_TYPE_CONTROL \<and>
   TransactionType (ep\<lparr>EpType := Isochronous\<rparr>) = Inr USBDEVFS_URB_TYPE_ISO \<and>
   TransactionType (ep\<lparr>EpType := Bulk\<rparr>) = Inr USBDEVFS_URB_TYPE_BULK \<and>
   TransactionType (ep\<lparr>EpType := Interrupt\<rparr>) = Inr USBDEVFS_URB_TYPE_INTERRUPT \<and>
   TransactionType (ep\<lparr>EpType := OtherEndpointType v\<rparr>) = Inl (RuntimeError ''invalid endpoint type'')"
  by (simp add: TransactionType_def)

subsection \<open>Control read\<close>

text \<open>
  Claim C7. Let \<open>res\<close> be the result of the control ioctl and \<open>received\<close> the bytes it
  stored in the caller's buffer. When the ioctl succeeds, \<open>ReadControl\<close> succeeds and the
  buffer has exactly \<open>ret res\<close> bytes; when that is no more than the buffer had, the
  buffer is cut down to its first \<open>ret res\<close> bytes. When the ioctl fails with
  \<open>EAGAIN\<close> the call throws the timeout exception, and with any other errno it throws
  \<^verbatim>\<open>posix::Exception("ioctl")\<close>.
\<close>

theorem ReadControl_result:
  assumes "io (control_descriptor type req val index data timeout) = (res, received)"
    and "ReadControl d io type req val index data timeout = (d', data', r)"
  shows "(0 \<le> ret res \<longrightarrow>
            r = Inr () \<and> length data' = nat (ret res) \<and>
            (nat (ret res) \<le> length data \<longrightarrow> data' = take (nat (ret res)) (store_bytes received data))) \<and>
         (ret res < 0 \<and> err res = EAGAIN \<longrightarrow>
            r = Inl (TimeoutException ''timeout sending control transfer'')) \<and>
         (ret res < 0 \<and> err res \<noteq> EAGAIN \<longrightarrow> r = Inl (PosixException ''ioctl'' (err res)))"
  using assms
  by (auto simp: ReadControl_def Let_def length_resize resize_def length_store_bytes
           split: if_splits)

theorem ReadControl_result_witness:
  "ReadControl \<lparr>dev_fd = 3, capabilities = 0, urbs = Map.empty, log_out = [], urb_calls = []\<rparr>
     (\<lambda>c. (\<lparr>ret = 2, err = 0\<rparr>, [7, 9])) 0xC0 0x67 0 0 [0, 0, 0, 0] 1000
   = (\<lparr>dev_fd = 3, capabilities = 0, urbs = Map.empty,
        log_out = [DebugReadControl 0xC0 0x67 0 0], urb_calls = []\<rparr>, [7, 9], Inr ())
   \<and> snd (snd (ReadControl \<lparr>dev_fd = 3, capabilities = 0, urbs = Map.empty, log_out = [], urb_calls = []\<rparr>
     (\<lambda>c. (\<lparr>ret = - 1, err = EAGAIN\<rparr>, [])) 0xC0 0x67 0 0 [0, 0, 0, 0] 1000))
       = Inl (TimeoutException ''timeout sending control transfer'')
   \<and> snd (snd (ReadControl \<lparr>dev_fd = 3, capabilities = 0, urbs = Map.empty, log_out = [], urb_calls = []\<rparr>
     (\<lambda>c. (\<lparr>ret = - 1, err = ENODEV\<rparr>, [])) 0xC0 0x67 0 0 [0, 0, 0, 0] 1000))
       = Inl (PosixException ''ioctl'' ENODEV)"
proof -
  let ?d = "\<lparr>dev_fd = 3, capabilities = 0, urbs = Map.empty, log_out = [], urb_calls = []\<rparr>"
  let ?d' = "\<lparr>dev_fd = 3, capabilities = 0, urbs = Map.empty,
        log_out = [DebugReadControl 0xC0 0x67 0 0], urb_calls = []\<rparr>"
  let ?ok = "\<lambda>c::usbdevfs_ctrltransfer. (\<lparr>ret = 2, err = 0\<rparr>, [7, 9 :: u8])"
  let ?again = "\<lambda>c::usbdevfs_ctrltransfer. (\<lparr>ret = - 1, err = EAGAIN\<rparr>, [] :: u8 list)"
  let ?gone = "\<lambda>c::usbdevfs_ctrltransfer. (\<lparr>ret = - 1, err = ENODEV\<rparr>, [] :: u8 list)"
  obtain d1 data1 r1 where 1: "ReadControl ?d ?ok 0xC0 0x67 0 0 [0, 0, 0, 0] 1000 = (d1, data1, r1)"
    by (cases "ReadControl ?d ?ok 0xC0 0x67 0 0 [0, 0, 0, 0] 1000") blast
  obtain d2 data2 r2 where 2: "ReadControl ?d ?again 0xC0 0x67 0 0 [0, 0, 0, 0] 1000 = (d2, data2, r2)"
    by (cases "ReadControl ?d ?again 0xC0 0x67 0 0 [0, 0, 0, 0] 1000") blast
  obtain d3 data3 r3 where 3: "ReadControl ?d ?gone 0xC0 0x67 0 0 [0, 0, 0, 0] 1000 = (d3, data3, r3)"
    by (cases "ReadControl ?d ?gone 0xC0 0x67 0 0 [0, 0, 0, 0] 1000") blast
  have "r1 = Inr () \<and> data1 = take 2 (store_bytes [7, 9] [0, 0, 0, 0])"
    using ReadControl_result [OF _ 1, of "\<lparr>ret = 2, err = 0\<rparr>" "[7, 9]"] by simp
  moreover have "d1 = ?d'" using 1 by (simp add: ReadControl_def error_log_def)
  moreover have "r2 = Inl (TimeoutException ''timeout sending control transfer'')"
    using ReadControl_result [OF _ 2, of "\<lparr>ret = - 1, err = EAGAIN\<rparr>" "[]"] by simp
  moreover have "r3 = Inl (PosixException ''ioctl'' ENODEV)"
    using ReadControl_result [OF _ 3, of "\<lparr>ret = - 1, err = ENODEV\<rparr>" "[]"]
    by (simp add: EAGAIN_def ENODEV_def)
  ultimately show ?thesis using 1 2 3 by (simp add: store_bytes_def)
qed

text \<open>
  Claim C10. When \<open>ReadControl\<close> fails, the caller's buffer has the length it had before
  the call, and the ioctl had failed: the buffer is resized on the success path only.
\<close>

theorem ReadControl_failure_keeps_length:
  assumes "ReadControl d io type req val index data timeout = (d', data', Inl ex)"
  shows "length data' = length data \<and>
         ret (fst (io (control_descriptor type req val index data timeout))) < 0"
  using assms
  by (auto simp: ReadControl_def Let_def length_store_bytes split: if_splits prod.splits)

theorem ReadControl_failure_keeps_length_witness:
  "ReadControl \<lparr>dev_fd = 3, capabilities = 0, urbs = Map.empty, log_out = [], urb_calls = []\<rparr>
     (\<lambda>c. (\<lparr>ret = - 1, err = EAGAIN\<rparr>, [])) 0xC0 0x67 0 0 [1, 2, 3, 4] 1000
   = (\<lparr>dev_fd = 3, capabilities = 0, urbs = Map.empty,
        log_out = [DebugReadControl 0xC0 0x67 0 0], urb_calls = []\<rparr>, [1, 2, 3, 4],
      Inl (TimeoutException ''timeout sending control transfer''))
   \<and> length (fst (snd (ReadControl
         \<lparr>dev_fd = 3, capabilities = 0, urbs = Map.empty, log_out = [], urb_calls = []\<rparr>
         (\<lambda>c. (\<lparr>ret = - 1, err = EAGAIN\<rparr>, [])) 0xC0 0x67 0 0 [1, 2, 3, 4] 1000))) = 4"
proof -
  let ?d = "\<lparr>dev_fd = 3, capabilities = 0, urbs = Map.empty, log_out = [], urb_calls = []\<rparr>"
  let ?again = "\<lambda>c::usbdevfs_ctrltransfer. (\<lparr>ret = - 1, err = EAGAIN\<rparr>, [] :: u8 list)"
  have run: "ReadControl ?d ?again 0xC0 0x67 0 0 [1, 2, 3, 4] 1000
     = (\<lparr>dev_fd = 3, capabilities = 0, urbs = Map.empty,
          log_out = [DebugReadControl 0xC0 0x67 0 0], urb_calls = []\<rparr>, [1, 2, 3, 4],
        Inl (TimeoutException ''timeout sending control transfer''))"
    by (simp add: ReadControl_def error_log_def store_bytes_def)
  from ReadControl_failure_keeps_length [OF run] run show ?thesis by simp
qed

subsection \<open>Release of an interface and clearing a halt\<close>

text \<open>
  Claim C8. Whatever the release ioctl and the clear-halt ioctl give, the destructor of
  \<open>InterfaceToken\<close> and \<open>ClearHalt\<close> end without an exception.
\<close>

theorem release_and_ClearHalt_never_throw:
  "InterfaceToken_dtor tok res = Inr () \<and> snd (ClearHalt d ep res') = Inr ()"
proof -
  have "is_std_exception ex" for ex by (cases ex) simp_all
  then show ?thesis
    by (simp add: InterfaceToken_dtor_def ClearHalt_def split: sum.splits)
qed

subsection \<open>The pending table and the reap loop\<close>

lemma table_ok_empty: "table_ok Map.empty"
  by (simp add: table_ok_def)

lemma table_ok_erase: "table_ok m \<Longrightarrow> table_ok (m(k := None))"
  by (simp add: table_ok_def)

lemma table_ok_insert: "table_ok m \<Longrightarrow> table_ok (map_insert m (KernelUrbOf u) u)"
  by (auto simp: table_ok_def map_insert_def split: option.splits)

lemma table_ok_insert_lookup:
  "table_ok m \<Longrightarrow> map_insert m (KernelUrbOf u) u (KernelUrbOf u) = Some u"
  by (auto simp: table_ok_def map_insert_def split: option.splits)

lemma Reap_frame:
  "urbs (fst (Reap d t ev)) = urbs d \<and> urb_calls (fst (Reap d t ev)) = urb_calls d \<and>
   capabilities (fst (Reap d t ev)) = capabilities d \<and> dev_fd (fst (Reap d t ev)) = dev_fd d"
  by (simp add: Reap_def Let_def error_log_def)

lemma Reap_succeeds: "reap_succeeds ev \<Longrightarrow> snd (Reap d t ev) = Inr (ev_urb ev)"
  by (simp add: Reap_def Let_def reap_succeeds_def)

lemma Reap_nothing_ready:
  "nothing_ready ev \<Longrightarrow> snd (Reap d t ev) = Inl (TimeoutException ''timeout reaping usb urb'')"
  by (simp add: Reap_def Let_def nothing_ready_def)

lemma reap_loop_Cons:
  "reap_loop d u t (ev # evs) =
     (case snd (Reap d t ev) of
        Inl ex \<Rightarrow> Some (fst (Reap d t ev), Inl ex)
      | Inr k \<Rightarrow>
          (case urbs d k of
             None \<Rightarrow> reap_loop (error_log (ErrGotUnknownUrb k) (fst (Reap d t ev))) u t evs
           | Some c \<Rightarrow>
               if c = u then Some ((fst (Reap d t ev))\<lparr>urbs := (urbs d)(k := None)\<rparr>, Inr (ev_data ev))
               else reap_loop ((fst (Reap d t ev))\<lparr>urbs := (urbs d)(k := None)\<rparr>) u t evs))"
  using Reap_frame [of d t ev]
  by (cases "Reap d t ev") (auto simp: Let_def split: sum.splits option.splits)

lemma reap_loop_invariant:
  assumes run: "reap_loop d u t evs = Some (d', r)"
    and init: "I d"
    and reap: "\<And>d ev. I d \<Longrightarrow> I (fst (Reap d t ev))"
    and unknown: "\<And>d k. I d \<Longrightarrow> I (error_log (ErrGotUnknownUrb k) d)"
    and other: "\<And>d k c. I d \<Longrightarrow> urbs d k = Some c \<Longrightarrow> c \<noteq> u \<Longrightarrow> I (d\<lparr>urbs := (urbs d)(k := None)\<rparr>)"
  shows "case r of
           Inl ex \<Rightarrow> I d'
         | Inr data \<Rightarrow> \<exists>d2 k. I d2 \<and> urbs d2 k = Some u \<and> d' = d2\<lparr>urbs := (urbs d2)(k := None)\<rparr>"
  using run init
proof (induction evs arbitrary: d)
  case Nil
  then show ?case by simp
next
  case (Cons ev evs)
  let ?d1 = "fst (Reap d t ev)"
  have d1: "I ?d1" using Cons.prems(2) by (rule reap)
  have tab: "urbs ?d1 = urbs d" using Reap_frame [of d t ev] by simp
  note step = Cons.prems(1) [unfolded reap_loop_Cons]
  show ?case
  proof (cases "snd (Reap d t ev)")
    case (Inl ex)
    with step have "d' = ?d1" "r = Inl ex" by simp_all
    with d1 show ?thesis by simp
  next
    case (Inr k)
    show ?thesis
    proof (cases "urbs d k")
      case None
      with Inr step have "reap_loop (error_log (ErrGotUnknownUrb k) ?d1) u t evs = Some (d', r)"
        by simp
      moreover have "I (error_log (ErrGotUnknownUrb k) ?d1)" using d1 by (rule unknown)
      ultimately show ?thesis by (rule Cons.IH)
    next
      case (Some c)
      let ?d2 = "?d1\<lparr>urbs := (urbs d)(k := None)\<rparr>"
      show ?thesis
      proof (cases "c = u")
        case True
        with Inr Some step have "d' = ?d2" "r = Inr (ev_data ev)" by simp_all
        moreover have "\<exists>d2 k'. I d2 \<and> urbs d2 k' = Some u \<and> ?d2 = d2\<lparr>urbs := (urbs d2)(k' := None)\<rparr>"
          using d1 tab Some True by (intro exI [of _ ?d1] exI [of _ k]) simp
        ultimately show ?thesis by simp
      next
        case False
        with Inr Some step have "reap_loop ?d2 u t evs = Some (d', r)" by simp
        moreover have "I (?d1\<lparr>urbs := (urbs ?d1)(k := None)\<rparr>)"
          using d1 _ False by (rule other) (simp add: tab Some)
        then have "I ?d2" by (simp add: tab)
        ultimately show ?thesis by (rule Cons.IH)
      qed
    qed
  qed
qed

lemma reap_loop_frame:
  assumes "reap_loop d u t evs = Some (d', r)"
  shows "urb_calls d' = urb_calls d \<and> capabilities d' = capabilities d \<and> dev_fd d' = dev_fd d"
proof -
  let ?I = "\<lambda>x. urb_calls x = urb_calls d \<and> capabilities x = capabilities d \<and> dev_fd x = dev_fd d"
  have "case r of Inl ex \<Rightarrow> ?I d'
        | Inr data \<Rightarrow> \<exists>d2 k. ?I d2 \<and> urbs d2 k = Some u \<and> d' = d2\<lparr>urbs := (urbs d2)(k := None)\<rparr>"
    using assms by (rule reap_loop_invariant) (simp_all add: Reap_frame error_log_def)
  then show ?thesis by (cases r) auto
qed

lemma reap_loop_table_ok:
  assumes "table_ok (urbs d)" and "reap_loop d u t evs = Some (d', r)"
  shows "table_ok (urbs d')"
proof -
  let ?I = "\<lambda>x. table_ok (urbs x)"
  have "case r of Inl ex \<Rightarrow> ?I d'
        | Inr data \<Rightarrow> \<exists>d2 k. ?I d2 \<and> urbs d2 k = Some u \<and> d' = d2\<lparr>urbs := (urbs d2)(k := None)\<rparr>"
    using assms(2,1) by (rule reap_loop_invariant) (simp_all add: Reap_frame error_log_def table_ok_def)
  then show ?thesis by (cases r) (auto simp: table_ok_erase)
qed


lemma reap_loop_own_completion:
  assumes "table_ok (urbs d)" and "urbs d (KernelUrbOf u) = Some u"
    and "own_completion u evs = Some data"
  shows "\<exists>d'. reap_loop d u t evs = Some (d', Inr data)"
  using assms
proof (induction evs arbitrary: d)
  case Nil
  then show ?case by simp
next
  case (Cons ev evs)
  let ?d1 = "fst (Reap d t ev)"
  from Cons.prems(3) have ok: "reap_succeeds ev" by (simp split: if_splits)
  then have r: "snd (Reap d t ev) = Inr (ev_urb ev)" by (rule Reap_succeeds)
  show ?case
  proof (cases "ev_urb ev = KernelUrbOf u")
    case True
    with Cons.prems ok have "data = ev_data ev" by simp
    then show ?thesis using r True Cons.prems(2) by (simp add: reap_loop_Cons del: reap_loop.simps)
  next
    case False
    with Cons.prems ok have rest: "own_completion u evs = Some data" by simp
    show ?thesis
    proof (cases "urbs d (ev_urb ev)")
      case None
      let ?d2 = "error_log (ErrGotUnknownUrb (ev_urb ev)) ?d1"
      have "table_ok (urbs ?d2)" "urbs ?d2 (KernelUrbOf u) = Some u"
        using Cons.prems(1,2) by (simp_all add: error_log_def Reap_frame)
      from Cons.IH [OF this rest] show ?thesis
        using r None by (simp add: reap_loop_Cons del: reap_loop.simps)
    next
      case (Some c)
      let ?d2 = "?d1\<lparr>urbs := (urbs d)(ev_urb ev := None)\<rparr>"
      from Some Cons.prems(1) have "ev_urb ev = KernelUrbOf c" by (simp add: table_ok_def)
      with False have "c \<noteq> u" by auto
      have "table_ok (urbs ?d2)" "urbs ?d2 (KernelUrbOf u) = Some u"
        using Cons.prems(1,2) False by (simp_all add: table_ok_erase)
      from Cons.IH [OF this rest] show ?thesis
        using r Some \<open>c \<noteq> u\<close> by (simp add: reap_loop_Cons del: reap_loop.simps)
    qed
  qed
qed

lemma reap_loop_times_out:
  assumes "table_ok (urbs d)" and "urbs d (KernelUrbOf u) = Some u"
    and "times_out u evs"
  shows "\<exists>d'. reap_loop d u t evs = Some (d', Inl (TimeoutException ''timeout reaping usb urb''))"
  using assms
proof (induction evs arbitrary: d)
  case Nil
  then show ?case by simp
next
  case (Cons ev evs)
  let ?d1 = "fst (Reap d t ev)"
  show ?case
  proof (cases "reap_succeeds ev")
    case False
    with Cons.prems(3) have "nothing_ready ev" by simp
    then have "snd (Reap d t ev) = Inl (TimeoutException ''timeout reaping usb urb'')"
      by (rule Reap_nothing_ready)
    then show ?thesis by (simp add: reap_loop_Cons del: reap_loop.simps)
  next
    case True
    then have r: "snd (Reap d t ev) = Inr (ev_urb ev)" by (rule Reap_succeeds)
    from True Cons.prems(3) have other: "ev_urb ev \<noteq> KernelUrbOf u" and rest: "times_out u evs"
      by simp_all
    show ?thesis
    proof (cases "urbs d (ev_urb ev)")
      case None
      let ?d2 = "error_log (ErrGotUnknownUrb (ev_urb ev)) ?d1"
      have "table_ok (urbs ?d2)" "urbs ?d2 (KernelUrbOf u) = Some u"
        using Cons.prems(1,2) by (simp_all add: error_log_def Reap_frame)
      from Cons.IH [OF this rest] show ?thesis
        using r None by (simp add: reap_loop_Cons del: reap_loop.simps)
    next
      case (Some c)
      let ?d2 = "?d1\<lparr>urbs := (urbs d)(ev_urb ev := None)\<rparr>"
      from Some Cons.prems(1) have "ev_urb ev = KernelUrbOf c" by (simp add: table_ok_def)
      with other have "c \<noteq> u" by auto
      have "table_ok (urbs ?d2)" "urbs ?d2 (KernelUrbOf u) = Some u"
        using Cons.prems(1,2) other by (simp_all add: table_ok_erase)
      from Cons.IH [OF this rest] show ?thesis
        using r Some \<open>c \<noteq> u\<close> by (simp add: reap_loop_Cons del: reap_loop.simps)
    qed
  qed
qed

subsection \<open>Submitting a request\<close>

lemma Urb_Submit_ok: "0 \<le> ret res \<Longrightarrow> Urb_Submit u res = Inr ()"
  by (simp add: Urb_Submit_def IOCTL_def)


lemma Urb_Discard_frame:
  "urbs (Urb_Discard d u res) = urbs d \<and> capabilities (Urb_Discard d u res) = capabilities d \<and>
   dev_fd (Urb_Discard d u res) = dev_fd d \<and>
   urb_calls (Urb_Discard d u res) = urb_calls d @ [DISCARDURB (KernelUrbOf (this u))]"
  by (simp add: Urb_Discard_def Let_def error_log_def)

text \<open>The session as \<^verbatim>\<open>Submit\<close> leaves it for the reap loop.\<close>

lemma Submit_accepted:
  assumes "0 \<le> ret (env_submit env)"
  shows "Submit d urb t env =
     (case reap_loop
             (d\<lparr>urb_calls := urb_calls d @
                  [SUBMITURB (KernelUrbOf (this urb)) (KernelUrb urb)
                     (take (nat (buffer_length (KernelUrb urb))) (Buffer urb))],
                urbs := map_insert (urbs d) (KernelUrbOf (this urb)) (this urb)\<rparr>)
             (this urb) t (env_reaps env) of
        None \<Rightarrow> None
      | Some (d2, Inr data) \<Rightarrow> Some (d2, kernel_complete data urb, Inr ())
      | Some (d2, Inl ex) \<Rightarrow>
          if is_TimeoutException ex
            then Some (Urb_Discard d2 urb (env_discard env), urb, Inl ex)
          else Some (Urb_Discard (error_log (ErrWhileSubmittingUrb ex) d2) urb (env_discard env),
                     urb, Inl ex))"
proof -
  have "is_std_exception ex" for ex by (cases ex) simp_all
  then show ?thesis
    using assms by (simp add: Submit_def Let_def Urb_Submit_ok split: option.splits sum.splits)
qed


lemma Submit_delivers:
  assumes ok: "table_ok (urbs d)" and del: "delivers (this urb) env = Some data"
  shows "\<exists>d'. Submit d urb t env = Some (d', kernel_complete data urb, Inr ()) \<and>
           table_ok (urbs d') \<and> capabilities d' = capabilities d \<and> dev_fd d' = dev_fd d \<and>
           urb_calls d' = urb_calls d @
             [SUBMITURB (KernelUrbOf (this urb)) (KernelUrb urb)
                (take (nat (buffer_length (KernelUrb urb))) (Buffer urb))]"
proof -
  let ?d1 = "d\<lparr>urb_calls := urb_calls d @
                  [SUBMITURB (KernelUrbOf (this urb)) (KernelUrb urb)
                     (take (nat (buffer_length (KernelUrb urb))) (Buffer urb))],
                urbs := map_insert (urbs d) (KernelUrbOf (this urb)) (this urb)\<rparr>"
  from del have acc: "0 \<le> ret (env_submit env)"
    and own: "own_completion (this urb) (env_reaps env) = Some data"
    by (simp_all add: delivers_def split: if_splits)
  have t1: "table_ok (urbs ?d1)" using ok by (simp add: table_ok_insert)
  have e1: "urbs ?d1 (KernelUrbOf (this urb)) = Some (this urb)"
    using ok by (simp add: table_ok_insert_lookup)
  from reap_loop_own_completion [OF t1 e1 own, of t]
  obtain d2 where run: "reap_loop ?d1 (this urb) t (env_reaps env) = Some (d2, Inr data)" ..
  have "Submit d urb t env = Some (d2, kernel_complete data urb, Inr ())"
    by (simp add: Submit_accepted [OF acc] run)
  moreover have "table_ok (urbs d2)" using t1 run by (rule reap_loop_table_ok)
  moreover have "urb_calls d2 = urb_calls ?d1 \<and> capabilities d2 = capabilities ?d1 \<and> dev_fd d2 = dev_fd ?d1"
    using run by (rule reap_loop_frame)
  ultimately show ?thesis by simp
qed


text \<open>
  Claim C5. Let the pending table be well formed and the submission be accepted, and let
  the waits bring completions of other requests only and then end with nothing ready.
  Then \<open>Submit\<close> fails with the timeout exception that \<open>Reap\<close> threw, and the request
  ioctls it issued are the submission followed by exactly one cancellation of this
  request. This does not depend on the result of the cancel ioctl; when that ioctl fails,
  the last thing written is the \<^verbatim>\<open>perror\<close> message.
\<close>

theorem Submit_timeout_discards_once:
  assumes ok: "table_ok (urbs d)" and acc: "0 \<le> ret (env_submit env)"
    and late: "times_out (this urb) (env_reaps env)"
  shows "\<exists>d'. Submit d urb t env = Some (d', urb, Inl (TimeoutException ''timeout reaping usb urb'')) \<and>
           urb_calls d' = urb_calls d @
             [SUBMITURB (KernelUrbOf (this urb)) (KernelUrb urb)
                (take (nat (buffer_length (KernelUrb urb))) (Buffer urb)),
              DISCARDURB (KernelUrbOf (this urb))] \<and>
           (ret (env_discard env) \<noteq> 0 \<longrightarrow>
              last (log_out d') = PerrorDiscardUrb (err (env_discard env)))"
proof -
  let ?d1 = "d\<lparr>urb_calls := urb_calls d @
                  [SUBMITURB (KernelUrbOf (this urb)) (KernelUrb urb)
                     (take (nat (buffer_length (KernelUrb urb))) (Buffer urb))],
                urbs := map_insert (urbs d) (KernelUrbOf (this urb)) (this urb)\<rparr>"
  let ?ex = "TimeoutException ''timeout reaping usb urb''"
  have t1: "table_ok (urbs ?d1)" using ok by (simp add: table_ok_insert)
  have e1: "urbs ?d1 (KernelUrbOf (this urb)) = Some (this urb)"
    using ok by (simp add: table_ok_insert_lookup)
  from reap_loop_times_out [OF t1 e1 late, of t]
  obtain d2 where loop: "reap_loop ?d1 (this urb) t (env_reaps env) = Some (d2, Inl ?ex)" ..
  have calls: "urb_calls d2 = urb_calls ?d1" using reap_loop_frame [OF loop] by simp
  let ?d' = "Urb_Discard d2 urb (env_discard env)"
  have "Submit d urb t env = Some (?d', urb, Inl ?ex)"
    by (simp add: Submit_accepted [OF acc] loop)
  moreover have "urb_calls ?d' = urb_calls d @
             [SUBMITURB (KernelUrbOf (this urb)) (KernelUrb urb)
                (take (nat (buffer_length (KernelUrb urb))) (Buffer urb)),
              DISCARDURB (KernelUrbOf (this urb))]"
    using calls by (simp add: Urb_Discard_frame)
  moreover have "ret (env_discard env) \<noteq> 0 \<longrightarrow>
              last (log_out ?d') = PerrorDiscardUrb (err (env_discard env))"
    by (simp add: Urb_Discard_def Let_def error_log_def)
  ultimately show ?thesis by blast
qed

text \<open>
  Claim C4. Let \<open>Reap\<close> hand back a completed request in the loop of \<open>Submit\<close>. When its
  identity is not in the pending table, the loop logs it and goes on with the table
  unchanged. When it is in the table with a request other than the caller's, the entry
  is removed, nothing is logged, and the loop goes on. When it is in the table with the
  caller's request, the entry is removed and the loop ends with that completion. \<open>Reap\<close>
  itself logs nothing but the elapsed time after a \<^verbatim>\<open>poll\<close> that timed out. A loop
  that ends with the caller's completion makes \<open>Submit\<close> return successfully.
\<close>

theorem reap_loop_completion:
  assumes "reap_succeeds ev"
  shows "(urbs d (ev_urb ev) = None \<longrightarrow>
            reap_loop d u t (ev # evs) =
            reap_loop (error_log (ErrGotUnknownUrb (ev_urb ev)) (fst (Reap d t ev))) u t evs) \<and>
         (\<forall>c. urbs d (ev_urb ev) = Some c \<and> c \<noteq> u \<longrightarrow>
            reap_loop d u t (ev # evs) =
            reap_loop ((fst (Reap d t ev))\<lparr>urbs := (urbs d)(ev_urb ev := None)\<rparr>) u t evs) \<and>
         (urbs d (ev_urb ev) = Some u \<longrightarrow>
            reap_loop d u t (ev # evs) =
            Some ((fst (Reap d t ev))\<lparr>urbs := (urbs d)(ev_urb ev := None)\<rparr>, Inr (ev_data ev))) \<and>
         log_out (fst (Reap d t ev)) =
            log_out d @ (if ret (ev_poll ev) = 0 \<and> 0 < t
                         then [ErrMsSinceLastPoll (elapsed_ms (ev_started ev) (ev_now ev))] else []) \<and>
         (\<forall>d2 data. 0 \<le> ret (env_submit env) \<and>
            reap_loop
              (d0\<lparr>urb_calls := urb_calls d0 @
                    [SUBMITURB (KernelUrbOf (this urb)) (KernelUrb urb)
                       (take (nat (buffer_length (KernelUrb urb))) (Buffer urb))],
                  urbs := map_insert (urbs d0) (KernelUrbOf (this urb)) (this urb)\<rparr>)
              (this urb) t (env_reaps env) = Some (d2, Inr data) \<longrightarrow>
            Submit d0 urb t env = Some (d2, kernel_complete data urb, Inr ()))"
proof -
  have "snd (Reap d t ev) = Inr (ev_urb ev)" using assms by (rule Reap_succeeds)
  moreover have "\<forall>d2 data. 0 \<le> ret (env_submit env) \<and>
            reap_loop
              (d0\<lparr>urb_calls := urb_calls d0 @
                    [SUBMITURB (KernelUrbOf (this urb)) (KernelUrb urb)
                       (take (nat (buffer_length (KernelUrb urb))) (Buffer urb))],
                  urbs := map_insert (urbs d0) (KernelUrbOf (this urb)) (this urb)\<rparr>)
              (this urb) t (env_reaps env) = Some (d2, Inr data) \<longrightarrow>
            Submit d0 urb t env = Some (d2, kernel_complete data urb, Inr ())"
    by (simp add: Submit_accepted)
  moreover have "log_out (fst (Reap d t ev)) =
            log_out d @ (if ret (ev_poll ev) = 0 \<and> 0 < t
                         then [ErrMsSinceLastPoll (elapsed_ms (ev_started ev) (ev_now ev))] else [])"
    using assms by (simp add: Reap_def Let_def reap_succeeds_def error_log_def)
  ultimately show ?thesis
    by (simp add: reap_loop_Cons del: reap_loop.simps)
qed

subsection \<open>Runs of the submit call\<close>

lemma table_ok_dev5: "table_ok (urbs (dev0\<lparr>urbs := [KernelUrbOf 5 \<mapsto> 5]\<rparr>))"
  by (simp add: table_ok_def)



theorem Submit_timeout_discards_once_witness:
  "table_ok (urbs (dev0\<lparr>urbs := [KernelUrbOf 5 \<mapsto> 5]\<rparr>)) \<and>
   times_out (this urb7) [ev_completed (KernelUrbOf 5) [], ev_timed_out] \<and>
   map_option (\<lambda>x. (discards (urb_calls (fst x)), last (log_out (fst x)), snd (snd x)))
     (Submit (dev0\<lparr>urbs := [KernelUrbOf 5 \<mapsto> 5]\<rparr>) urb7 1000
        \<lparr>env_submit = sys_ok, env_reaps = [ev_completed (KernelUrbOf 5) [], ev_timed_out],
         env_discard = \<lparr>ret = - 1, err = ENODEV\<rparr>\<rparr>)
     = Some ([KernelUrbOf 7], PerrorDiscardUrb ENODEV,
             Inl (TimeoutException ''timeout reaping usb urb''))"
proof -
  let ?d = "dev0\<lparr>urbs := [KernelUrbOf 5 \<mapsto> 5]\<rparr>"
  let ?env = "\<lparr>env_submit = sys_ok, env_reaps = [ev_completed (KernelUrbOf 5) [], ev_timed_out],
         env_discard = \<lparr>ret = - 1, err = ENODEV\<rparr>\<rparr>"
  have late: "times_out (this urb7) (env_reaps ?env)"
    by (simp add: reap_succeeds_def nothing_ready_def ev_completed_def ev_timed_out_def sys_ok_def
          urb7_def EAGAIN_def)
  have acc: "0 \<le> ret (env_submit ?env)" by (simp add: sys_ok_def)
  from Submit_timeout_discards_once [OF table_ok_dev5 acc late, of 1000]
  obtain d' where "Submit ?d urb7 1000 ?env
        = Some (d', urb7, Inl (TimeoutException ''timeout reaping usb urb''))"
    and "urb_calls d' = urb_calls ?d @
             [SUBMITURB (KernelUrbOf (this urb7)) (KernelUrb urb7)
                (take (nat (buffer_length (KernelUrb urb7))) (Buffer urb7)),
              DISCARDURB (KernelUrbOf (this urb7))]"
    and "last (log_out d') = PerrorDiscardUrb ENODEV"
    by auto
  then show ?thesis using late table_ok_dev5 by (simp add: dev0_def urb7_def)
qed

theorem reap_loop_completion_witness:
  "map_option (\<lambda>x. (snd x, log_out (fst x), urbs (fst x) (KernelUrbOf 5), urbs (fst x) (KernelUrbOf 7)))
     (reap_loop (dev0\<lparr>urbs := [KernelUrbOf 5 \<mapsto> 5, KernelUrbOf 7 \<mapsto> 7]\<rparr>) 7 1000
        [ev_completed (OtherAddress 99) [], ev_completed (KernelUrbOf 5) [],
         ev_completed (KernelUrbOf 7) [1, 2]])
   = Some (Inr [1, 2], [ErrGotUnknownUrb (OtherAddress 99)], None, None)"
proof -
  let ?e1 = "ev_completed (OtherAddress 99) []"
  let ?e2 = "ev_completed (KernelUrbOf 5) []"
  let ?e3 = "ev_completed (KernelUrbOf 7) [1, 2]"
  let ?a = "dev0\<lparr>urbs := [KernelUrbOf 5 \<mapsto> 5, KernelUrbOf 7 \<mapsto> 7]\<rparr>"
  let ?b = "error_log (ErrGotUnknownUrb (ev_urb ?e1)) (fst (Reap ?a 1000 ?e1))"
  let ?c = "(fst (Reap ?b 1000 ?e2))\<lparr>urbs := (urbs ?b)(ev_urb ?e2 := None)\<rparr>"
  let ?d = "(fst (Reap ?c 1000 ?e3))\<lparr>urbs := (urbs ?c)(ev_urb ?e3 := None)\<rparr>"
  have ok: "reap_succeeds ?e1" "reap_succeeds ?e2" "reap_succeeds ?e3"
    by (simp_all add: reap_succeeds_def ev_completed_def sys_ok_def)
  have "reap_loop ?a 7 1000 [?e1, ?e2, ?e3] = reap_loop ?b 7 1000 [?e2, ?e3]"
    using reap_loop_completion [OF ok(1), of ?a 7 1000 "[?e2, ?e3]"]
    by (simp add: ev_completed_def dev0_def del: reap_loop.simps)
  also have "\<dots> = reap_loop ?c 7 1000 [?e3]"
    using reap_loop_completion [OF ok(2), of ?b 7 1000 "[?e3]"]
    by (simp add: sys_ok_def ev_completed_def Reap_def error_log_def Let_def dev0_def
          elapsed_ms_def c_div_def del: reap_loop.simps)
  also have "\<dots> = Some (?d, Inr [1, 2])"
    using reap_loop_completion [OF ok(3), of ?c 7 1000 "[]"]
    by (simp add: sys_ok_def ev_completed_def Reap_def error_log_def Let_def dev0_def
          elapsed_ms_def c_div_def del: reap_loop.simps)
  finally show ?thesis by (simp add: sys_ok_def ev_completed_def Reap_def error_log_def Let_def dev0_def
          elapsed_ms_def c_div_def)
qed

subsection \<open>Flags of a request\<close>

lemma zero_bit_or: "((x::u32) OR 0x40) AND 0x40 \<noteq> 0"
  by (simp add: bit.conj_disj_distrib2)

lemma zero_bit_clear: "((x::u32) AND - 65) AND 64 = 0"
  by (simp add: and.assoc)

lemma zero_bit_cont_or: "((x::u32) OR 0x04) AND 0x40 = x AND 0x40"
  by (simp add: bit.conj_disj_distrib2)

lemma zero_bit_cont_clear: "((x::u32) AND - 5) AND 64 = x AND 64"
  by (simp add: and.assoc)

lemma take_store_bytes:
  "length c \<le> length buf \<Longrightarrow> take (length c) (store_bytes c buf) = c"
  by (simp add: store_bytes_def)

lemma SetFlag_frame:
  "this (SetFlag f v u) = this u \<and> Buffer (SetFlag f v u) = Buffer u \<and>
   buffer_length (KernelUrb (SetFlag f v u)) = buffer_length (KernelUrb u)"
  by (simp add: SetFlag_def)

lemma kernel_complete_frame:
  "this (kernel_complete data u) = this u \<and>
   length (Buffer (kernel_complete data u)) = length (Buffer u) \<and>
   buffer_length (KernelUrb (kernel_complete data u)) = buffer_length (KernelUrb u) \<and>
   flags (KernelUrb (kernel_complete data u)) = flags (KernelUrb u)"
  by (simp add: kernel_complete_def Let_def length_store_bytes)

lemma zero_packet_SetZeroPacketFlag:
  "zero_packet_set (KernelUrb (SetZeroPacketFlag v u)) = v"
  by (simp add: zero_packet_set_def SetZeroPacketFlag_def SetFlag_def USBDEVFS_URB_ZERO_PACKET_def
        zero_bit_or zero_bit_clear)

lemma zero_packet_SetContinuationFlag:
  "zero_packet_set (KernelUrb (SetContinuationFlag v u)) = zero_packet_set (KernelUrb u)"
  by (simp add: zero_packet_set_def SetContinuationFlag_def SetFlag_def
        USBDEVFS_URB_ZERO_PACKET_def USBDEVFS_URB_BULK_CONTINUATION_def
        zero_bit_cont_or zero_bit_cont_clear)

subsection \<open>Bulk write\<close>

lemma WriteBulk_loop_step:
  assumes ok: "table_ok (urbs d)" and buf: "length (Buffer urb) = ts"
    and del: "delivers (this urb) env \<noteq> None"
  shows "\<exists>d1 urb1 c1 ku.
           WriteBulk_loop d urb ts c inp t (env # envs) =
             (if ts \<le> length inp then WriteBulk_loop d1 urb1 ts c1 (drop ts inp) t envs
              else Some (d1, [], Inr ())) \<and>
           table_ok (urbs d1) \<and> capabilities d1 = capabilities d \<and>
           urb_calls d1 = urb_calls d @ [SUBMITURB (KernelUrbOf (this urb)) ku (take ts inp)] \<and>
           zero_packet_set ku =
             (if capabilities d AND USBDEVFS_CAP_ZERO_PACKET \<noteq> 0 then length inp < ts
              else zero_packet_set (KernelUrb urb)) \<and>
           this urb1 = this urb \<and> length (Buffer urb1) = ts \<and>
           zero_packet_set (KernelUrb urb1) = zero_packet_set ku"
proof -
  let ?chunk = "take ts inp"
  let ?r = "length ?chunk"
  let ?urb1 = "urb\<lparr>Buffer := store_bytes ?chunk (Buffer urb),
                    KernelUrb := (KernelUrb urb)\<lparr>buffer_length := int ?r\<rparr>\<rparr>"
  let ?urb2 = "if capabilities d AND USBDEVFS_CAP_ZERO_PACKET \<noteq> 0
               then SetZeroPacketFlag (?r \<noteq> ts) ?urb1 else ?urb1"
  let ?urb3 = "if capabilities d AND USBDEVFS_CAP_BULK_CONTINUATION \<noteq> 0
               then SetContinuationFlag c ?urb2 else ?urb2"
  let ?c1 = "if capabilities d AND USBDEVFS_CAP_BULK_CONTINUATION \<noteq> 0 then True else c"
  have send: "Urb_Send urb inp ts = (?urb1, drop ts inp, ?r)"
    by (simp add: Urb_Send_def Let_def)
  have this3: "this ?urb3 = this urb"
    by (simp add: SetFlag_frame SetContinuationFlag_def SetZeroPacketFlag_def)
  have buf3: "Buffer ?urb3 = store_bytes ?chunk (Buffer urb)"
    by (simp add: SetFlag_frame SetContinuationFlag_def SetZeroPacketFlag_def)
  have len3: "buffer_length (KernelUrb ?urb3) = int ?r"
    by (simp add: SetFlag_frame SetContinuationFlag_def SetZeroPacketFlag_def)
  have r_le: "?r \<le> length (Buffer urb)" using buf by simp
  have data3: "take (nat (buffer_length (KernelUrb ?urb3))) (Buffer ?urb3) = ?chunk"
    unfolding len3 buf3 using take_store_bytes [OF r_le] by simp
  have zero1: "zero_packet_set (KernelUrb ?urb1) = zero_packet_set (KernelUrb urb)"
    by (simp add: zero_packet_set_def)
  have zero3: "zero_packet_set (KernelUrb ?urb3) =
             (if capabilities d AND USBDEVFS_CAP_ZERO_PACKET \<noteq> 0 then length inp < ts
              else zero_packet_set (KernelUrb urb))"
  proof -
    have "(?r \<noteq> ts) = (length inp < ts)" by auto
    then show ?thesis
      using zero1 by (simp add: zero_packet_SetContinuationFlag zero_packet_SetZeroPacketFlag)
  qed
  from del obtain data where "delivers (this ?urb3) env = Some data"
    unfolding this3 by auto
  from Submit_delivers [OF ok this, of t]
  obtain d1 where sub: "Submit d ?urb3 t env = Some (d1, kernel_complete data ?urb3, Inr ())"
    and ok1: "table_ok (urbs d1)" and cap1: "capabilities d1 = capabilities d"
    and calls1: "urb_calls d1 = urb_calls d @
             [SUBMITURB (KernelUrbOf (this ?urb3)) (KernelUrb ?urb3)
                (take (nat (buffer_length (KernelUrb ?urb3))) (Buffer ?urb3))]"
    by blast
  let ?urb4 = "kernel_complete data ?urb3"
  have loop: "WriteBulk_loop d urb ts c inp t (env # envs) =
             (if ?r = ts then WriteBulk_loop d1 ?urb4 ts ?c1 (drop ts inp) t envs
              else Some (d1, drop ts inp, Inr ()))"
    by (simp only: WriteBulk_loop.simps send Let_def prod.case sub option.case sum.case)
  have cond: "(?r = ts) = (ts \<le> length inp)" by auto
  have rest: "\<not> ts \<le> length inp \<Longrightarrow> drop ts inp = []" by simp
  have "WriteBulk_loop d urb ts c inp t (env # envs) =
             (if ts \<le> length inp then WriteBulk_loop d1 ?urb4 ts ?c1 (drop ts inp) t envs
              else Some (d1, [], Inr ()))"
    unfolding loop cond using rest by simp
  moreover have "urb_calls d1 = urb_calls d @ [SUBMITURB (KernelUrbOf (this urb)) (KernelUrb ?urb3) ?chunk]"
    using calls1 unfolding data3 this3 .
  moreover have "this ?urb4 = this urb" using kernel_complete_frame [of data ?urb3] this3 by simp
  moreover have "length (Buffer ?urb4) = ts"
    using kernel_complete_frame [of data ?urb3] buf3 buf by (simp add: length_store_bytes)
  moreover have "zero_packet_set (KernelUrb ?urb4) = zero_packet_set (KernelUrb ?urb3)"
    using kernel_complete_frame [of data ?urb3] by (simp add: zero_packet_set_def)
  ultimately show ?thesis using ok1 cap1 zero3 by blast
qed

lemma WriteBulk_loop_chunks:
  assumes pos: "0 < ts"
  shows "table_ok (urbs d) \<Longrightarrow> length (Buffer urb) = ts \<Longrightarrow> this urb = p \<Longrightarrow>
     \<not> zero_packet_set (KernelUrb urb) \<Longrightarrow> length inp = k * ts \<Longrightarrow> length es = Suc k \<Longrightarrow>
     \<forall>e\<in>set es. delivers p e \<noteq> None \<Longrightarrow>
     \<exists>d' cs. WriteBulk_loop d urb ts c inp t (es @ rest) = Some (d', [], Inr ()) \<and>
       urb_calls d' = urb_calls d @ cs \<and> length cs = Suc k \<and>
       map snd (submissions cs) = map (\<lambda>i. take ts (drop (i * ts) inp)) [0..<k] @ [[]] \<and>
       map (zero_packet_set \<circ> fst) (submissions cs) =
         replicate k False @ [capabilities d AND USBDEVFS_CAP_ZERO_PACKET \<noteq> 0]"
proof (induction k arbitrary: d urb c inp es)
  case 0
  from "0.prems"(6) obtain e where es: "es = [e]" by (cases es) auto
  with "0.prems" have del: "delivers (this urb) e \<noteq> None" by simp
  from "0.prems"(5) have inp: "inp = []" by simp
  from WriteBulk_loop_step [OF "0.prems"(1,2) del, of c inp t rest]
  obtain d1 urb1 c1 ku where
    run0: "WriteBulk_loop d urb ts c inp t (e # rest) =
             (if ts \<le> length inp then WriteBulk_loop d1 urb1 ts c1 (drop ts inp) t rest
              else Some (d1, [], Inr ()))"
    and calls0: "urb_calls d1 = urb_calls d @ [SUBMITURB (KernelUrbOf (this urb)) ku (take ts inp)]"
    and zero0: "zero_packet_set ku =
             (if capabilities d AND USBDEVFS_CAP_ZERO_PACKET \<noteq> 0 then length inp < ts
              else zero_packet_set (KernelUrb urb))"
    by blast
  have run: "WriteBulk_loop d urb ts c inp t (e # rest) = Some (d1, [], Inr ())"
    using run0 pos inp by simp
  have calls: "urb_calls d1 = urb_calls d @ [SUBMITURB (KernelUrbOf (this urb)) ku []]"
    using calls0 inp by simp
  have zero: "zero_packet_set ku = (capabilities d AND USBDEVFS_CAP_ZERO_PACKET \<noteq> 0)"
    using zero0 pos inp "0.prems"(4) by simp
  show ?case
    by (rule exI [of _ d1], rule exI [of _ "[SUBMITURB (KernelUrbOf (this urb)) ku []]"])
       (simp add: es run calls zero)
next
  case (Suc k)
  from Suc.prems(6) obtain e es' where es: "es = e # es'" and len': "length es' = Suc k"
    by (cases es) auto
  with Suc.prems have del: "delivers (this urb) e \<noteq> None"
    and dels: "\<forall>e\<in>set es'. delivers p e \<noteq> None" by simp_all
  from Suc.prems(5) pos have full: "ts \<le> length inp" by simp
  from Suc.prems(5) have rest_len: "length (drop ts inp) = k * ts" by simp
  from WriteBulk_loop_step [OF Suc.prems(1,2) del, of c inp t "es' @ rest"]
  obtain d1 urb1 c1 ku where
    run0: "WriteBulk_loop d urb ts c inp t (e # es' @ rest) =
             (if ts \<le> length inp then WriteBulk_loop d1 urb1 ts c1 (drop ts inp) t (es' @ rest)
              else Some (d1, [], Inr ()))"
    and ok1: "table_ok (urbs d1)" and cap1: "capabilities d1 = capabilities d"
    and calls: "urb_calls d1 = urb_calls d @ [SUBMITURB (KernelUrbOf (this urb)) ku (take ts inp)]"
    and zero0: "zero_packet_set ku =
             (if capabilities d AND USBDEVFS_CAP_ZERO_PACKET \<noteq> 0 then length inp < ts
              else zero_packet_set (KernelUrb urb))"
    and this0: "this urb1 = this urb" and buf1: "length (Buffer urb1) = ts"
    and zero10: "zero_packet_set (KernelUrb urb1) = zero_packet_set ku"
    by blast
  have run: "WriteBulk_loop d urb ts c inp t (e # es' @ rest) =
            WriteBulk_loop d1 urb1 ts c1 (drop ts inp) t (es' @ rest)"
    using run0 full by simp
  have zero: "\<not> zero_packet_set ku" using zero0 full Suc.prems(4) by simp
  have this1: "this urb1 = p" using this0 Suc.prems(3) by simp
  have zero1: "\<not> zero_packet_set (KernelUrb urb1)" using zero10 zero by simp
  from Suc.IH [OF ok1 buf1 this1 zero1 rest_len len' dels, of c1]
  obtain d' cs where
    run': "WriteBulk_loop d1 urb1 ts c1 (drop ts inp) t (es' @ rest) = Some (d', [], Inr ())"
    and calls': "urb_calls d' = urb_calls d1 @ cs" and lcs: "length cs = Suc k"
    and data': "map snd (submissions cs) =
                  map (\<lambda>i. take ts (drop (i * ts) (drop ts inp))) [0..<k] @ [[]]"
    and zero': "map (zero_packet_set \<circ> fst) (submissions cs) =
                  replicate k False @ [capabilities d1 AND USBDEVFS_CAP_ZERO_PACKET \<noteq> 0]"
    by blast
  let ?cs = "SUBMITURB (KernelUrbOf (this urb)) ku (take ts inp) # cs"
  have shift: "map (\<lambda>i. take ts (drop (i * ts) inp)) [0..<Suc k] =
               take ts inp # map (\<lambda>i. take ts (drop (i * ts) (drop ts inp))) [0..<k]"
    by (simp add: map_upt_Suc add.commute del: upt_Suc)
  have "WriteBulk_loop d urb ts c inp t (es @ rest) = Some (d', [], Inr ())"
    using run run' by (simp add: es)
  moreover have "urb_calls d' = urb_calls d @ ?cs" using calls calls' by simp
  moreover have "length ?cs = Suc (Suc k)" using lcs by simp
  moreover have "map snd (submissions ?cs) =
                   map (\<lambda>i. take ts (drop (i * ts) inp)) [0..<Suc k] @ [[]]"
    unfolding shift using data' by simp
  moreover have "map (zero_packet_set \<circ> fst) (submissions ?cs) =
         replicate (Suc k) False @ [capabilities d AND USBDEVFS_CAP_ZERO_PACKET \<noteq> 0]"
    using zero zero' cap1 by simp
  ultimately show ?case by blast
qed

lemma Urb_BufferSize_nonneg: "Urb_BufferSize P = Some n \<Longrightarrow> 0 \<le> n"
proof -
  assume a: "Urb_BufferSize P = Some n"
  then have P: "P \<noteq> 0" and n: "n = max P (c_div MaxBufferSize P * P)"
    by (auto simp: Urb_BufferSize_def split: if_splits)
  have "0 \<le> c_div MaxBufferSize P * P"
  proof (cases "P < 0")
    case True
    then have "c_div MaxBufferSize P = - (MaxBufferSize div (- P))"
      by (simp add: c_div_def MaxBufferSize_def)
    moreover have "0 \<le> MaxBufferSize div (- P)"
      using True by (simp add: MaxBufferSize_def pos_imp_zdiv_nonneg_iff)
    then have "MaxBufferSize div (- P) * P \<le> 0"
      using True by (simp add: mult_nonneg_nonpos)
    ultimately show ?thesis by simp
  next
    case False
    with P have "0 < P" by simp
    then have "c_div MaxBufferSize P = MaxBufferSize div P"
      by (simp add: c_div_def MaxBufferSize_def)
    moreover have "0 \<le> MaxBufferSize div P"
      using \<open>0 < P\<close> by (simp add: MaxBufferSize_def pos_imp_zdiv_nonneg_iff)
    ultimately show ?thesis using \<open>0 < P\<close> by simp
  qed
  then show ?thesis using n by simp
qed

lemma Urb_ctor_Some:
  assumes "Urb_ctor p fd ty ep = Some urb"
  shows "this urb = p \<and> length (Buffer urb) = GetTransferSize urb \<and>
         buffer_length (KernelUrb urb) = int (GetTransferSize urb) \<and>
         \<not> zero_packet_set (KernelUrb urb) \<and>
         (0 < MaxPacketSize ep \<longrightarrow> 0 < GetTransferSize urb)"
proof -
  from assms obtain n where n: "Urb_BufferSize (MaxPacketSize ep) = Some n"
    and urb: "urb = \<lparr>this = p, Fd = fd, PacketSize = MaxPacketSize ep,
                Buffer = replicate (nat n) 0,
                KernelUrb = \<lparr>urb_type = ty, endpoint = Address ep, flags = 0,
                             buffer_length = n, actual_length = 0\<rparr>\<rparr>"
    by (auto simp: Urb_ctor_def split: option.splits)
  have nn: "0 \<le> n" using n by (rule Urb_BufferSize_nonneg)
  have "0 < MaxPacketSize ep \<Longrightarrow> 0 < n"
    using n by (auto simp: Urb_BufferSize_def split: if_splits)
  then show ?thesis using nn by (simp add: urb GetTransferSize_def zero_packet_set_def)
qed

text \<open>
  Claim C2, as amended. Let the input have \<open>k\<close> times the transfer size bytes, and let the
  kernel accept and complete each of the first \<open>k + 1\<close> submissions. Then \<open>WriteBulk\<close>
  succeeds with the input used up, having issued exactly \<open>k + 1\<close> request ioctls, all of
  them submissions: the \<open>k\<close> full chunks of the input in order and then one chunk of
  length zero, whether or not the zero-packet capability is enabled. The capability
  decides only the zero-packet flag of the last submission; no full chunk carries it.
\<close>

theorem WriteBulk_chunks:
  assumes "table_ok (urbs d)" and "0 < MaxPacketSize ep"
    and "Urb_ctor p (dev_fd d) USBDEVFS_URB_TYPE_BULK ep = Some urb"
    and "length inp = k * GetTransferSize urb"
    and "length es = Suc k" and "\<forall>e\<in>set es. delivers p e \<noteq> None"
  shows "\<exists>d' cs. WriteBulk d p ep inp t (es @ rest) = Some (d', [], Inr ()) \<and>
       urb_calls d' = urb_calls d @ cs \<and> length cs = Suc k \<and>
       map snd (submissions cs) =
         map (\<lambda>i. take (GetTransferSize urb) (drop (i * GetTransferSize urb) inp)) [0..<k] @ [[]] \<and>
       map (zero_packet_set \<circ> fst) (submissions cs) =
         replicate k False @ [capabilities d AND USBDEVFS_CAP_ZERO_PACKET \<noteq> 0]"
proof -
  let ?ts = "GetTransferSize urb"
  from Urb_ctor_Some [OF assms(3)] assms(2)
  have "this urb = p" "length (Buffer urb) = ?ts" "\<not> zero_packet_set (KernelUrb urb)" "0 < ?ts"
    by simp_all
  from WriteBulk_loop_chunks [OF this(4) assms(1) this(2,1,3) assms(4,5,6), of False t rest]
  show ?thesis by (simp add: WriteBulk_def assms(3))
qed

lemma delivers_env_completes: "delivers p (env_completes p data) = Some data"
  by (simp add: delivers_def env_completes_def sys_ok_def reap_succeeds_def ev_completed_def)

lemma Urb_ctor_ep512:
  "\<exists>urb. Urb_ctor p 3 USBDEVFS_URB_TYPE_BULK ep512 = Some urb \<and> GetTransferSize urb = 4096"
  by (simp add: Urb_ctor_def Urb_BufferSize_def c_div_def MaxBufferSize_def ep512_def
        GetTransferSize_def)

theorem WriteBulk_chunks_witness:
  "table_ok (urbs (dev0\<lparr>capabilities := USBDEVFS_CAP_ZERO_PACKET\<rparr>)) \<and>
   0 < MaxPacketSize ep512 \<and>
   map_option
     (\<lambda>x. (map snd (submissions (urb_calls (fst x))),
           map (zero_packet_set \<circ> fst) (submissions (urb_calls (fst x))), snd x))
     (WriteBulk (dev0\<lparr>capabilities := USBDEVFS_CAP_ZERO_PACKET\<rparr>) 7 ep512 (replicate 4096 5) 1000
        [env_completes 7 [], env_completes 7 []])
   = Some ([replicate 4096 5, []], [False, True], [], Inr ())"
proof -
  let ?d = "dev0\<lparr>capabilities := USBDEVFS_CAP_ZERO_PACKET\<rparr>"
  let ?es = "[env_completes 7 [], env_completes 7 []]"
  have ok: "table_ok (urbs ?d)" by (simp add: dev0_def table_ok_def)
  have pos: "0 < MaxPacketSize ep512" by (simp add: ep512_def)
  obtain urb where ctor: "Urb_ctor 7 (dev_fd ?d) USBDEVFS_URB_TYPE_BULK ep512 = Some urb"
    and ts: "GetTransferSize urb = 4096"
    using Urb_ctor_ep512 [of 7] by (auto simp: dev0_def)
  have len: "length (replicate 4096 (5::u8)) = Suc 0 * GetTransferSize urb" by (simp add: ts)
  have les: "length ?es = Suc (Suc 0)" by simp
  have del: "\<forall>e\<in>set ?es. delivers 7 e \<noteq> None" by (simp add: delivers_env_completes)
  from WriteBulk_chunks [OF ok pos ctor len les del, of 1000 "[]"]
  obtain d' cs where "WriteBulk ?d 7 ep512 (replicate 4096 5) 1000 ?es = Some (d', [], Inr ())"
    and "urb_calls d' = urb_calls ?d @ cs"
    and "map snd (submissions cs) = [replicate 4096 5, []]"
    and "map (zero_packet_set \<circ> fst) (submissions cs) = [False, True]"
    by (auto simp: ts dev0_def USBDEVFS_CAP_ZERO_PACKET_def)
  then show ?thesis using ok pos by (simp add: dev0_def)
qed

text \<open>
  Claim C2 as stated fails with the zero-packet capability disabled: for an input of 4096
  bytes, one transfer size, \<open>WriteBulk\<close> submits the full chunk and then a chunk of length
  zero.
\<close>

theorem WriteBulk_terminator_without_zero_packet:
  "capabilities dev0 AND USBDEVFS_CAP_ZERO_PACKET = 0 \<and>
   WriteBulk dev0 7 ep512 (replicate 4096 5) 1000 [env_completes 7 [], env_completes 7 []] \<noteq> None \<and>
   map snd (submissions (urb_calls (fst (the
     (WriteBulk dev0 7 ep512 (replicate 4096 5) 1000 [env_completes 7 [], env_completes 7 []])))))
   = [replicate 4096 5, []]"
proof -
  let ?es = "[env_completes 7 [], env_completes 7 []]"
  have ok: "table_ok (urbs dev0)" by (simp add: dev0_def table_ok_def)
  obtain urb where ctor: "Urb_ctor 7 (dev_fd dev0) USBDEVFS_URB_TYPE_BULK ep512 = Some urb"
    and ts: "GetTransferSize urb = 4096"
    using Urb_ctor_ep512 [of 7] by (auto simp: dev0_def)
  from Urb_ctor_Some [OF ctor]
  have urb: "this urb = 7" "length (Buffer urb) = 4096" "\<not> zero_packet_set (KernelUrb urb)"
    by (simp_all add: ts)
  have len: "length (replicate 4096 (5::u8)) = Suc 0 * 4096" by simp
  have les: "length ?es = Suc (Suc 0)" by simp
  have del: "\<forall>e\<in>set ?es. delivers 7 e \<noteq> None" by (simp add: delivers_env_completes)
  have pos: "(0::nat) < 4096" by simp
  from WriteBulk_loop_chunks [OF pos ok urb(2,1,3) len les del, of False 1000 "[]"]
  obtain d' cs where run: "WriteBulk_loop dev0 urb 4096 False (replicate 4096 5) 1000 ?es = Some (d', [], Inr ())"
    and calls: "urb_calls d' = urb_calls dev0 @ cs"
    and data: "map snd (submissions cs) =
                 map (\<lambda>i. take 4096 (drop (i * 4096) (replicate 4096 (5::u8)))) [0..<Suc 0] @ [[]]"
    by (simp only: append_Nil2) blast
  have "map snd (submissions (urb_calls d')) = [replicate 4096 5, []]"
    using calls data by (simp add: dev0_def)
  with run have "WriteBulk_loop dev0 urb 4096 False (replicate 4096 5) 1000 ?es \<noteq> None \<and>
     map snd (submissions (urb_calls (fst (the
       (WriteBulk_loop dev0 urb 4096 False (replicate 4096 5) 1000 ?es))))) = [replicate 4096 5, []]"
    by simp
  moreover have "WriteBulk dev0 7 ep512 (replicate 4096 5) 1000 ?es =
                   WriteBulk_loop dev0 urb 4096 False (replicate 4096 5) 1000 ?es"
    by (simp add: WriteBulk_def ctor ts)
  moreover have "capabilities dev0 AND USBDEVFS_CAP_ZERO_PACKET = 0" by (simp add: dev0_def)
  ultimately show ?thesis by simp
qed

subsection \<open>Bulk read\<close>

lemma ReadBulk_loop_step:
  assumes ok: "table_ok (urbs d)" and buf: "length (Buffer urb) = ts"
    and bl: "buffer_length (KernelUrb urb) = int ts"
    and del: "delivers (this urb) env = Some data"
  shows "\<exists>d1 urb1 c1 ku bytes.
           ReadBulk_loop d urb ts c out t (env # envs) =
             (if ts \<le> length data then ReadBulk_loop d1 urb1 ts c1 (out @ take ts data) t envs
              else Some (d1, out @ data, Inr ())) \<and>
           table_ok (urbs d1) \<and> capabilities d1 = capabilities d \<and>
           urb_calls d1 = urb_calls d @ [SUBMITURB (KernelUrbOf (this urb)) ku bytes] \<and>
           this urb1 = this urb \<and> length (Buffer urb1) = ts \<and>
           buffer_length (KernelUrb urb1) = int ts"
proof -
  let ?urb1 = "if capabilities d AND USBDEVFS_CAP_BULK_CONTINUATION \<noteq> 0
               then SetContinuationFlag c urb else urb"
  let ?c1 = "if capabilities d AND USBDEVFS_CAP_BULK_CONTINUATION \<noteq> 0 then True else c"
  let ?got = "take ts data"
  have this1: "this ?urb1 = this urb" by (simp add: SetFlag_frame SetContinuationFlag_def)
  have buf1: "Buffer ?urb1 = Buffer urb" by (simp add: SetFlag_frame SetContinuationFlag_def)
  have bl1: "buffer_length (KernelUrb ?urb1) = int ts"
    using bl by (simp add: SetFlag_frame SetContinuationFlag_def)
  from del have "delivers (this ?urb1) env = Some data" unfolding this1 .
  from Submit_delivers [OF ok this, of t]
  obtain d1 where sub: "Submit d ?urb1 t env = Some (d1, kernel_complete data ?urb1, Inr ())"
    and ok1: "table_ok (urbs d1)" and cap1: "capabilities d1 = capabilities d"
    and calls1: "urb_calls d1 = urb_calls d @
             [SUBMITURB (KernelUrbOf (this ?urb1)) (KernelUrb ?urb1)
                (take (nat (buffer_length (KernelUrb ?urb1))) (Buffer ?urb1))]"
    by blast
  let ?urb2 = "kernel_complete data ?urb1"
  have frame2: "this ?urb2 = this urb" "length (Buffer ?urb2) = ts"
    "buffer_length (KernelUrb ?urb2) = int ts"
    using kernel_complete_frame [of data ?urb1] this1 buf1 buf bl1 by simp_all
  have got_le: "length ?got \<le> length (Buffer urb)" using buf by simp
  have actual: "actual_length (KernelUrb ?urb2) = int (length ?got)"
    using bl1 by (simp add: kernel_complete_def Let_def)
  have bytes: "take (length ?got) (Buffer ?urb2) = ?got"
    using take_store_bytes [OF got_le] bl1 buf1 by (simp add: kernel_complete_def Let_def)
  have recv: "Urb_Recv ?urb2 out = (out @ ?got, length ?got)"
    using actual bytes by (simp add: Urb_Recv_def Let_def)
  have loop: "ReadBulk_loop d urb ts c out t (env # envs) =
             (if length ?got = ts then ReadBulk_loop d1 ?urb2 ts ?c1 (out @ ?got) t envs
              else Some (d1, out @ ?got, Inr ()))"
    by (simp only: ReadBulk_loop.simps Let_def sub option.case prod.case sum.case recv)
  have cond: "(length ?got = ts) = (ts \<le> length data)" by auto
  have short: "\<not> ts \<le> length data \<Longrightarrow> ?got = data" by simp
  have "ReadBulk_loop d urb ts c out t (env # envs) =
             (if ts \<le> length data then ReadBulk_loop d1 ?urb2 ts ?c1 (out @ take ts data) t envs
              else Some (d1, out @ data, Inr ()))"
    unfolding loop cond using short by simp
  moreover have "urb_calls d1 = urb_calls d @
             [SUBMITURB (KernelUrbOf (this urb)) (KernelUrb ?urb1)
                (take (nat (buffer_length (KernelUrb ?urb1))) (Buffer ?urb1))]"
    using calls1 unfolding this1 .
  ultimately show ?thesis using ok1 cap1 frame2 by blast
qed

lemma ReadBulk_loop_chunks:
  "table_ok (urbs d) \<Longrightarrow> length (Buffer urb) = ts \<Longrightarrow> buffer_length (KernelUrb urb) = int ts \<Longrightarrow>
   this urb = p \<Longrightarrow>
   list_all2 (\<lambda>e c. delivers p e = Some c) es (fulls @ [short]) \<Longrightarrow>
   \<forall>c\<in>set fulls. ts \<le> length c \<Longrightarrow> length short < ts \<Longrightarrow>
   \<exists>d' cs. ReadBulk_loop d urb ts c out t (es @ rest) =
              Some (d', out @ concat (map (take ts) fulls) @ short, Inr ()) \<and>
            urb_calls d' = urb_calls d @ cs \<and> length cs = Suc (length fulls) \<and>
            length (submissions cs) = Suc (length fulls)"
proof (induction fulls arbitrary: d urb c out es)
  case Nil
  from Nil.prems(5) obtain e where es: "es = [e]" and del: "delivers (this urb) e = Some short"
    using Nil.prems(4) by (auto simp: list_all2_Cons2)
  from ReadBulk_loop_step [OF Nil.prems(1,2,3) del, of c out t rest]
  obtain d1 ku bytes where
    run0: "ReadBulk_loop d urb ts c out t (e # rest) =
             (if ts \<le> length short then undefined else Some (d1, out @ short, Inr ()))"
    and calls: "urb_calls d1 = urb_calls d @ [SUBMITURB (KernelUrbOf (this urb)) ku bytes]"
    using Nil.prems(7) by auto
  have run: "ReadBulk_loop d urb ts c out t (e # rest) = Some (d1, out @ short, Inr ())"
    using run0 Nil.prems(7) by simp
  show ?case
    by (rule exI [of _ d1], rule exI [of _ "[SUBMITURB (KernelUrbOf (this urb)) ku bytes]"])
       (simp add: es run calls)
next
  case (Cons f fulls)
  from Cons.prems(5) obtain e es' where es: "es = e # es'"
    and del: "delivers (this urb) e = Some f"
    and dels: "list_all2 (\<lambda>e c. delivers p e = Some c) es' (fulls @ [short])"
    using Cons.prems(4) by (auto simp: list_all2_Cons2)
  from Cons.prems(6) have full: "ts \<le> length f" and fulls: "\<forall>c\<in>set fulls. ts \<le> length c"
    by simp_all
  from ReadBulk_loop_step [OF Cons.prems(1,2,3) del, of c out t "es' @ rest"]
  obtain d1 urb1 c1 ku bytes where
    run0: "ReadBulk_loop d urb ts c out t (e # es' @ rest) =
             (if ts \<le> length f then ReadBulk_loop d1 urb1 ts c1 (out @ take ts f) t (es' @ rest)
              else Some (d1, out @ f, Inr ()))"
    and ok1: "table_ok (urbs d1)"
    and calls: "urb_calls d1 = urb_calls d @ [SUBMITURB (KernelUrbOf (this urb)) ku bytes]"
    and this0: "this urb1 = this urb" and buf1: "length (Buffer urb1) = ts"
    and bl1: "buffer_length (KernelUrb urb1) = int ts"
    by blast
  have run: "ReadBulk_loop d urb ts c out t (e # es' @ rest) =
             ReadBulk_loop d1 urb1 ts c1 (out @ take ts f) t (es' @ rest)"
    using run0 full by simp
  have this1: "this urb1 = p" using this0 Cons.prems(4) by simp
  from Cons.IH [OF ok1 buf1 bl1 this1 dels fulls Cons.prems(7), of c1 "out @ take ts f"]
  obtain d' cs where
    run': "ReadBulk_loop d1 urb1 ts c1 (out @ take ts f) t (es' @ rest) =
             Some (d', (out @ take ts f) @ concat (map (take ts) fulls) @ short, Inr ())"
    and calls': "urb_calls d' = urb_calls d1 @ cs" and lcs: "length cs = Suc (length fulls)"
    and subs: "length (submissions cs) = Suc (length fulls)"
    by blast
  let ?cs = "SUBMITURB (KernelUrbOf (this urb)) ku bytes # cs"
  have "ReadBulk_loop d urb ts c out t (es @ rest) =
          Some (d', out @ concat (map (take ts) (f # fulls)) @ short, Inr ())"
    using run run' by (simp add: es)
  moreover have "urb_calls d' = urb_calls d @ ?cs" using calls calls' by simp
  moreover have "length ?cs = Suc (length (f # fulls))" using lcs by simp
  moreover have "length (submissions ?cs) = Suc (length (f # fulls))" using subs by simp
  ultimately show ?case by blast
qed

text \<open>
  Claim C6. Let the kernel accept and complete the submissions of \<open>ReadBulk\<close>, first with
  chunks that fill the transfer size and then with one that is strictly shorter. Then
  \<open>ReadBulk\<close> succeeds right after the short chunk, having issued one submission for each
  of these chunks and no other request ioctl, and the output stream has gained the bytes
  of the chunks, as the device reported their lengths, in the order of submission.
\<close>

theorem ReadBulk_concatenates:
  assumes "table_ok (urbs d)"
    and "Urb_ctor p (dev_fd d) USBDEVFS_URB_TYPE_BULK ep = Some urb"
    and "list_all2 (\<lambda>e c. delivers p e = Some c) es (fulls @ [short])"
    and "\<forall>c\<in>set fulls. GetTransferSize urb \<le> length c"
    and "length short < GetTransferSize urb"
  shows "\<exists>d' cs. ReadBulk d p ep out t (es @ rest) =
              Some (d', out @ concat (map (take (GetTransferSize urb)) fulls) @ short, Inr ()) \<and>
            urb_calls d' = urb_calls d @ cs \<and> length cs = Suc (length fulls) \<and>
            length (submissions cs) = Suc (length fulls)"
proof -
  let ?ts = "GetTransferSize urb"
  from Urb_ctor_Some [OF assms(2)]
  have "length (Buffer urb) = ?ts" "buffer_length (KernelUrb urb) = int ?ts" "this urb = p"
    by simp_all
  from ReadBulk_loop_chunks [OF assms(1) this assms(3,4,5), of False out t rest]
  show ?thesis by (simp add: ReadBulk_def assms(2))
qed

lemma Urb_ctor_ep512_in:
  "\<exists>urb. Urb_ctor p 3 USBDEVFS_URB_TYPE_BULK ep512_in = Some urb \<and> GetTransferSize urb = 4096"
  by (simp add: Urb_ctor_def Urb_BufferSize_def c_div_def MaxBufferSize_def ep512_in_def
        GetTransferSize_def)

theorem ReadBulk_concatenates_witness:
  "table_ok (urbs dev0) \<and>
   list_all2 (\<lambda>e c. delivers 7 e = Some c)
     [env_completes 7 (replicate 4096 5), env_completes 7 [1, 2, 3]] ([replicate 4096 5] @ [[1, 2, 3]]) \<and>
   map_option (\<lambda>x. (length (submissions (urb_calls (fst x))), length (urb_calls (fst x)), snd x))
     (ReadBulk dev0 7 ep512_in [9] 1000
        [env_completes 7 (replicate 4096 5), env_completes 7 [1, 2, 3], env_completes 7 [4]])
   = Some (2, 2, [9] @ replicate 4096 5 @ [1, 2, 3], Inr ())"
proof -
  let ?es = "[env_completes 7 (replicate 4096 5), env_completes 7 [1, 2, 3]]"
  have ok: "table_ok (urbs dev0)" by (simp add: dev0_def table_ok_def)
  obtain urb where ctor: "Urb_ctor 7 (dev_fd dev0) USBDEVFS_URB_TYPE_BULK ep512_in = Some urb"
    and ts: "GetTransferSize urb = 4096"
    using Urb_ctor_ep512_in [of 7] by (auto simp: dev0_def)
  have del: "list_all2 (\<lambda>e c. delivers 7 e = Some c) ?es ([replicate 4096 5] @ [[1, 2, 3]])"
    by (simp add: delivers_env_completes)
  have full: "\<forall>c\<in>set [replicate 4096 (5::u8)]. GetTransferSize urb \<le> length c" by (simp add: ts)
  have short: "length [1, 2, 3 :: u8] < GetTransferSize urb" by (simp add: ts)
  from ReadBulk_concatenates [OF ok ctor del full short, of "[9]" 1000 "[env_completes 7 [4]]"]
  obtain d' cs where "ReadBulk dev0 7 ep512_in [9] 1000 (?es @ [env_completes 7 [4]]) =
              Some (d', [9] @ concat (map (take 4096) [replicate 4096 5]) @ [1, 2, 3], Inr ())"
    and "urb_calls d' = urb_calls dev0 @ cs" and "length cs = 2" and "length (submissions cs) = 2"
    by (auto simp: ts)
  then show ?thesis using ok del by (simp add: dev0_def)
qed

end
